theory Spec2Isabelle
  imports Complex_Main "HOL-Library.Sublist"
begin

section \<open>Numbers and plane geometry\<close>

text \<open>
  In the geometry, JavaScript numbers are modelled as exact reals: \<open>Math.hypot\<close> is the
  Euclidean norm, \<open>Math.floor\<close> is \<open>floor\<close>, \<open>Math.round\<close> rounds half up and \<open>Math.PI\<close> is
  \<open>pi\<close>; the one place where the source starts a search from \<open>Infinity\<close> is modelled with
  an option. The capacity of a zone is decided by a \<open>Math.floor\<close> at whole numbers, where
  rounding matters: it is computed in double precision, see below.
\<close>

definition hypot :: "real \<Rightarrow> real \<Rightarrow> real" where
  "hypot a b = sqrt (a * a + b * b)"

definition js_round :: "real \<Rightarrow> real" where
  "js_round v = of_int \<lfloor>v + 1 / 2\<rfloor>"

record pt =
  px :: real
  py :: real

record circle =
  cx :: real
  cy :: real
  radius :: real

datatype zoneType = residential | road

record zone =
  ztype :: zoneType
  points :: "circle list"

subsection \<open>Double precision\<close>

text \<open>
  A JavaScript number: a finite double, given by the real it denotes, one of the two
  infinities, or NaN. The sign of a zero is not tracked.
\<close>

datatype number = Num real | PosInfinity | NegInfinity | NaN

definition pow2 :: "int \<Rightarrow> real" where
  "pow2 k = (if 0 \<le> k then 2 ^ nat k else 1 / 2 ^ nat (- k))"

text \<open>
  The binary exponent of the binade of \<open>v\<close>, searched downwards from the largest exponent
  \<open>1023\<close> of a double and stopping at \<open>-1022\<close>, the exponent shared by the smallest normal
  binade and the subnormal numbers.
\<close>

fun exponentLoop :: "nat \<Rightarrow> int \<Rightarrow> real \<Rightarrow> int" where
  "exponentLoop 0 k v = k"
| "exponentLoop (Suc n) k v = (if pow2 k \<le> v then k else exponentLoop n (k - 1) v)"

definition exponent :: "real \<Rightarrow> int" where
  "exponent v = exponentLoop 2045 1023 \<bar>v\<bar>"

definition roundTiesToEven :: "real \<Rightarrow> int" where
  "roundTiesToEven v =
     (let n = \<lfloor>v\<rfloor>; r = v - of_int n
      in if r < 1 / 2 then n else if 1 / 2 < r then n + 1 else if even n then n else n + 1)"

text \<open>
  The double nearest to the real \<open>v\<close>, ties to the even significand: doubles of the binade
  of \<open>v\<close> are the multiples of \<open>2 ^ (exponent - 52)\<close>; a result of magnitude \<open>2 ^ 1024\<close>
  overflows to an infinity.
\<close>

definition roundToDouble :: "real \<Rightarrow> number" where
  "roundToDouble v =
     (let quantum = pow2 (exponent v - 52);
          d = of_int (roundTiesToEven (v / quantum)) * quantum
      in if pow2 1024 \<le> d then PosInfinity
         else if d \<le> - pow2 1024 then NegInfinity
         else Num d)"

fun signOf :: "number \<Rightarrow> real" where
  "signOf (Num a) = sgn a"
| "signOf PosInfinity = 1"
| "signOf NegInfinity = - 1"
| "signOf NaN = 0"

definition infinity :: "real \<Rightarrow> number" where
  "infinity s = (if 0 < s then PosInfinity else NegInfinity)"

text \<open>The operators \<open>*\<close>, \<open>+\<close> and \<open>/\<close> on numbers: the exact result, rounded once.\<close>

fun number_times :: "number \<Rightarrow> number \<Rightarrow> number" where
  "number_times NaN y = NaN"
| "number_times x NaN = NaN"
| "number_times (Num a) (Num b) = roundToDouble (a * b)"
| "number_times x y = (if signOf x * signOf y = 0 then NaN else infinity (signOf x * signOf y))"

fun number_plus :: "number \<Rightarrow> number \<Rightarrow> number" where
  "number_plus NaN y = NaN"
| "number_plus x NaN = NaN"
| "number_plus (Num a) (Num b) = roundToDouble (a + b)"
| "number_plus PosInfinity NegInfinity = NaN"
| "number_plus NegInfinity PosInfinity = NaN"
| "number_plus (Num a) y = y"
| "number_plus x y = x"

fun number_divide :: "number \<Rightarrow> number \<Rightarrow> number" where
  "number_divide NaN y = NaN"
| "number_divide x NaN = NaN"
| "number_divide (Num a) (Num b) =
     (if b \<noteq> 0 then roundToDouble (a / b) else if a = 0 then NaN else infinity a)"
| "number_divide (Num a) y = Num 0"
| "number_divide x (Num b) = infinity (if b < 0 then - signOf x else signOf x)"
| "number_divide x y = NaN"

fun Math_floor :: "number \<Rightarrow> number" where
  "Math_floor (Num a) = Num (of_int \<lfloor>a\<rfloor>)"
| "Math_floor x = x"

fun Math_min :: "number \<Rightarrow> number \<Rightarrow> number" where
  "Math_min NaN y = NaN"
| "Math_min x NaN = NaN"
| "Math_min NegInfinity y = NegInfinity"
| "Math_min x NegInfinity = NegInfinity"
| "Math_min PosInfinity y = y"
| "Math_min x PosInfinity = x"
| "Math_min (Num a) (Num b) = Num (min a b)"

fun Math_max :: "number \<Rightarrow> number \<Rightarrow> number" where
  "Math_max NaN y = NaN"
| "Math_max x NaN = NaN"
| "Math_max PosInfinity y = PosInfinity"
| "Math_max x PosInfinity = PosInfinity"
| "Math_max NegInfinity y = y"
| "Math_max x NegInfinity = x"
| "Math_max (Num a) (Num b) = Num (max a b)"

text \<open>
  \<open>Math.PI\<close> is the double \<open>3.141592653589793\<close>, with the bits \<open>0x400921FB54442D18\<close>:
  the significand \<open>7074237752028440\<close> at the exponent \<open>1\<close>.
\<close>

definition Math_PI :: number where
  "Math_PI = Num (884279719003555 / 2 ^ 48)"

section \<open>Agents\<close>

datatype phase = traveling_to_node | traveling_to_area | settling | settled

text \<open>
  An agent object. Every agent is created with a \<open>finalPosition\<close> object and the phase
  \<open>traveling_to_node\<close>; the lot polygon is absent until the agent settles. The lot
  geometry itself is a parameter \<open>'l\<close> of the model.
\<close>

record 'l agent =
  agent_x :: real
  agent_y :: real
  targetZoneIndex :: nat
  finalPosition :: pt
  closestNodeToFinalPosition :: int
  pathToNode :: "pt list"
  pathToNodeIndex :: nat
  agent_phase :: phase
  speed :: real
  agent_radius :: real
  lotPolygon :: "'l option"

subsection \<open>Capacity\<close>

text \<open>
  The literals \<open>10\<close> and \<open>0.8\<close> of the constructor; \<open>0.8\<close> denotes the double nearest to
  eight tenths.
\<close>

definition MAX_AGENTS_PER_ZONE :: number where "MAX_AGENTS_PER_ZONE = Num 10"
definition PACKING_EFFICIENCY :: number where "PACKING_EFFICIENCY = roundToDouble (8 / 10)"
definition MIN_AGENT_DISTANCE :: real where "MIN_AGENT_DISTANCE = 100"
definition MAX_PATHFINDING_ATTEMPTS :: nat where "MAX_PATHFINDING_ATTEMPTS = 100"

text \<open>
  The accumulation loop \<open>totalArea += Math.PI * point.radius * point.radius\<close>. A radius
  is a brush size, a finite double.
\<close>

fun totalAreaLoop :: "number \<Rightarrow> circle list \<Rightarrow> number" where
  "totalAreaLoop totalArea [] = totalArea"
| "totalAreaLoop totalArea (p # ps) =
     totalAreaLoop
       (number_plus totalArea
          (number_times (number_times Math_PI (Num (radius p))) (Num (radius p)))) ps"

text \<open>The number that \<open>calculateMaxAgents\<close> returns.\<close>

definition calculateMaxAgentsValue :: "zone \<Rightarrow> number" where
  "calculateMaxAgentsValue z =
     (let totalArea = totalAreaLoop (Num 0) (points z);
          agentArea = number_times (number_times Math_PI (Num 50)) (Num 50);
          packingEfficiency = PACKING_EFFICIENCY;
          maxAgents = Math_floor (number_times (number_divide totalArea agentArea) packingEfficiency)
      in Math_max (Num 0) (Math_min maxAgents MAX_AGENTS_PER_ZONE))"

text \<open>
  That number is always one of the whole numbers \<open>0, \<dots>, 10\<close> (lemma
  \<open>calculateMaxAgents_returned\<close> below); the callers, which subtract a list length from it
  and count up to the difference, get it as an integer.
\<close>

fun integerValue :: "number \<Rightarrow> int" where
  "integerValue (Num a) = \<lfloor>a\<rfloor>"
| "integerValue x = 0"

definition calculateMaxAgents :: "zone \<Rightarrow> int" where
  "calculateMaxAgents z = integerValue (calculateMaxAgentsValue z)"

text \<open>The capacity formula as the specification words it.\<close>

definition totalCircleArea :: "zone \<Rightarrow> real" where
  "totalCircleArea z = (\<Sum>c \<leftarrow> points z. pi * (radius c)\<^sup>2)"

definition perAgentFootprintArea :: real where
  "perAgentFootprintArea = pi * 50\<^sup>2"

definition clamp :: "int \<Rightarrow> int \<Rightarrow> int \<Rightarrow> int" where
  "clamp v lo hi = (if v < lo then lo else if hi < v then hi else v)"

definition maxAgents_spec :: "zone \<Rightarrow> int" where
  "maxAgents_spec z =
     clamp \<lfloor>totalCircleArea z / perAgentFootprintArea * (8 / 10)\<rfloor> 0 10"

subsection \<open>The per-agent state machine\<close>

definition updateAgentTravelingToNode :: "'l agent \<Rightarrow> 'l agent" where
  "updateAgentTravelingToNode a =
     (if pathToNode a = [] then a\<lparr>agent_phase := traveling_to_area\<rparr>
      else if pathToNodeIndex a \<ge> length (pathToNode a) then a\<lparr>agent_phase := traveling_to_area\<rparr>
      else
        let targetPoint = pathToNode a ! pathToNodeIndex a;
            dx = px targetPoint - agent_x a;
            dy = py targetPoint - agent_y a;
            distance = hypot dx dy
        in if distance < speed a
           then a\<lparr>agent_x := px targetPoint, agent_y := py targetPoint,
                  pathToNodeIndex := pathToNodeIndex a + 1\<rparr>
           else a\<lparr>agent_x := agent_x a + (dx / distance) * speed a,
                  agent_y := agent_y a + (dy / distance) * speed a\<rparr>)"

definition updateAgentTravelingToArea :: "'l agent \<Rightarrow> 'l agent" where
  "updateAgentTravelingToArea a =
     (let dx = px (finalPosition a) - agent_x a;
          dy = py (finalPosition a) - agent_y a;
          distance = hypot dx dy
      in if distance < speed a
         then a\<lparr>agent_phase := settling\<rparr>
         else a\<lparr>agent_x := agent_x a + (dx / distance) * speed a,
                agent_y := agent_y a + (dy / distance) * speed a\<rparr>)"

text \<open>
  \<open>generateAdaptiveLot\<close> reads the zones and the positions of all agents; it is the
  parameter \<open>lot\<close>, applied to the agent after it has been snapped and marked settled.
\<close>

definition updateAgentSettling :: "('l agent \<Rightarrow> 'l) \<Rightarrow> 'l agent \<Rightarrow> 'l agent" where
  "updateAgentSettling lot a =
     (let dx = px (finalPosition a) - agent_x a;
          dy = py (finalPosition a) - agent_y a;
          distance = hypot dx dy
      in if distance < speed a
         then (let a' = a\<lparr>agent_x := px (finalPosition a), agent_y := py (finalPosition a),
                            agent_phase := settled\<rparr>
               in a'\<lparr>lotPolygon := Some (lot a')\<rparr>)
         else a\<lparr>agent_x := agent_x a + (dx / distance) * speed a,
                agent_y := agent_y a + (dy / distance) * speed a\<rparr>)"

text \<open>The body of the loop of \<open>updateAgents\<close>: the dispatch on the phase.\<close>

definition updateAgent :: "('l agent \<Rightarrow> 'l) \<Rightarrow> 'l agent \<Rightarrow> 'l agent" where
  "updateAgent lot a =
     (if agent_phase a = traveling_to_node then updateAgentTravelingToNode a
      else if agent_phase a = traveling_to_area then updateAgentTravelingToArea a
      else if agent_phase a = settling then updateAgentSettling lot a
      else a)"

text \<open>
  \<open>updateAgents\<close> walks the live list in order and mutates each agent in place, so the
  lot of an agent that settles is computed from a list in which the agents before it
  are already advanced. \<open>generateAdaptiveLot\<close> is \<open>gen\<close>, given that list.
\<close>

fun updateAgentsLoop ::
  "('l agent list \<Rightarrow> 'l agent \<Rightarrow> 'l) \<Rightarrow> 'l agent list \<Rightarrow> 'l agent list \<Rightarrow> 'l agent list" where
  "updateAgentsLoop gen done [] = done"
| "updateAgentsLoop gen done (a # rest) =
     updateAgentsLoop gen (done @ [updateAgent (\<lambda>a'. gen (done @ a' # rest) a') a]) rest"

definition updateAgents :: "('l agent list \<Rightarrow> 'l agent \<Rightarrow> 'l) \<Rightarrow> 'l agent list \<Rightarrow> 'l agent list" where
  "updateAgents gen ags = updateAgentsLoop gen [] ags"

text \<open>The agent list after \<open>n\<close> further ticks of \<open>updateAgents\<close>.\<close>

primrec ticks :: "('l agent list \<Rightarrow> 'l agent \<Rightarrow> 'l) \<Rightarrow> nat \<Rightarrow> 'l agent list \<Rightarrow> 'l agent list" where
  "ticks gen 0 ags = ags"
| "ticks gen (Suc n) ags = ticks gen n (updateAgents gen ags)"

text \<open>The position of a phase in the order of the state machine.\<close>

fun phase_rank :: "phase \<Rightarrow> nat" where
  "phase_rank traveling_to_node = 0"
| "phase_rank traveling_to_area = 1"
| "phase_rank settling = 2"
| "phase_rank settled = 3"

text \<open>Distance from an agent to its settle position, and to whatever it is heading for.\<close>

definition dist_to_final :: "'l agent \<Rightarrow> real" where
  "dist_to_final a = hypot (px (finalPosition a) - agent_x a) (py (finalPosition a) - agent_y a)"

definition target_dist :: "'l agent \<Rightarrow> real" where
  "target_dist a =
     (if agent_phase a = traveling_to_node
      then (if pathToNodeIndex a < length (pathToNode a)
            then hypot (px (pathToNode a ! pathToNodeIndex a) - agent_x a)
                       (py (pathToNode a ! pathToNodeIndex a) - agent_y a)
            else 0)
      else dist_to_final a)"

definition progress :: "'l agent \<Rightarrow> nat \<times> nat \<times> nat" where
  "progress a = (3 - phase_rank (agent_phase a),
                 length (pathToNode a) - pathToNodeIndex a,
                 nat \<lfloor>target_dist a / speed a\<rfloor>)"

text \<open>An agent one unit away from its settle position, with an empty path.\<close>

definition agent_example :: "unit agent" where
  "agent_example = \<lparr>agent_x = 0, agent_y = 0, targetZoneIndex = 0,
     finalPosition = \<lparr>px = 1, py = 0\<rparr>, closestNodeToFinalPosition = - 1,
     pathToNode = [], pathToNodeIndex = 0, agent_phase = traveling_to_node,
     speed = 2, agent_radius = 10, lotPolygon = None\<rparr>"


section \<open>Geometry lemmas\<close>

lemma hypot_nonneg: "0 \<le> hypot a b"
  by (simp add: hypot_def)

lemma hypot_less_iff: "0 \<le> r \<Longrightarrow> hypot a b < r \<longleftrightarrow> a * a + b * b < r * r"
proof -
  assume r: "0 \<le> r"
  then have "sqrt (r * r) = r" by simp
  then have "hypot a b < r \<longleftrightarrow> sqrt (a * a + b * b) < sqrt (r * r)"
    by (simp add: hypot_def)
  also have "\<dots> \<longleftrightarrow> a * a + b * b < r * r"
    by (rule real_sqrt_less_iff)
  finally show ?thesis .
qed

lemma hypot_le_iff: "0 \<le> r \<Longrightarrow> hypot a b \<le> r \<longleftrightarrow> a * a + b * b \<le> r * r"
proof -
  assume r: "0 \<le> r"
  then have "sqrt (r * r) = r" by simp
  then have "hypot a b \<le> r \<longleftrightarrow> sqrt (a * a + b * b) \<le> sqrt (r * r)"
    by (simp add: hypot_def)
  also have "\<dots> \<longleftrightarrow> a * a + b * b \<le> r * r"
    by (rule real_sqrt_le_iff)
  finally show ?thesis .
qed

lemma hypot_less_neg: "r < 0 \<Longrightarrow> \<not> hypot a b < r"
  using hypot_nonneg [of a b] by linarith

lemma hypot_zero_right: "hypot a 0 = \<bar>a\<bar>"
  by (simp add: hypot_def)

lemma hypot_zero_left: "hypot 0 b = \<bar>b\<bar>"
  by (simp add: hypot_def)

lemma hypot_scale: "0 \<le> k \<Longrightarrow> hypot (k * a) (k * b) = k * hypot a b"
proof -
  assume k: "0 \<le> k"
  have "(k * a) * (k * a) + (k * b) * (k * b) = (k * k) * (a * a + b * b)"
    by (simp add: algebra_simps)
  then have "hypot (k * a) (k * b) = sqrt (k * k) * sqrt (a * a + b * b)"
    by (simp add: hypot_def real_sqrt_mult)
  then show ?thesis using k by (simp add: hypot_def)
qed

section \<open>Capacity of a zone\<close>

subsection \<open>Rounding\<close>

lemma pow2_powr: "pow2 k = 2 powr (real_of_int k)"
proof (cases "0 \<le> k")
  case True
  then have "2 powr (real_of_int k) = (2::real) ^ nat k"
    by (simp add: powr_realpow [symmetric])
  with True show ?thesis by (simp add: pow2_def)
next
  case False
  then have "real_of_int k = - real (nat (- k))" by simp
  then have "2 powr (real_of_int k) = 1 / (2::real) ^ nat (- k)"
    by (simp only: powr_minus powr_realpow zero_less_numeral) (simp add: field_simps)
  with False show ?thesis by (simp add: pow2_def)
qed

lemma pow2_pos: "0 < pow2 k"
  by (simp add: pow2_powr)

lemma pow2_mono: "j \<le> k \<Longrightarrow> pow2 j \<le> pow2 k"
  by (simp add: pow2_powr)

lemma pow2_add: "pow2 (j + k) = pow2 j * pow2 k"
  by (simp add: pow2_powr powr_add)

lemma exponentLoop_eq:
  "pow2 k \<le> v \<Longrightarrow> v < pow2 (k + 1) \<Longrightarrow> k \<le> j \<Longrightarrow> nat (j - k) \<le> n
     \<Longrightarrow> exponentLoop n j v = k"
proof (induction n arbitrary: j)
  case 0
  then show ?case by simp
next
  case (Suc n)
  show ?case
  proof (cases "pow2 j \<le> v")
    case True
    have "j = k"
    proof (rule ccontr)
      assume "j \<noteq> k"
      with Suc.prems(3) have "k + 1 \<le> j" by simp
      then have "pow2 (k + 1) \<le> pow2 j" by (rule pow2_mono)
      with True Suc.prems(2) show False by simp
    qed
    with True show ?thesis by simp
  next
    case False
    with Suc.prems(1) have "j \<noteq> k" by auto
    with Suc.prems(3,4) have "k \<le> j - 1" "nat (j - 1 - k) \<le> n" by simp_all
    from Suc.IH [OF Suc.prems(1) Suc.prems(2) this] False show ?thesis by simp
  qed
qed

lemma exponentLoop_below:
  "v < pow2 (j - int n + 1) \<Longrightarrow> exponentLoop n j v = j - int n"
proof (induction n arbitrary: j)
  case 0
  then show ?case by simp
next
  case (Suc n)
  have "pow2 (j - int (Suc n) + 1) \<le> pow2 j" by (rule pow2_mono) simp
  with Suc.prems have f: "\<not> pow2 j \<le> v" by simp
  from Suc.prems have "v < pow2 (j - 1 - int n + 1)" by (simp add: algebra_simps)
  from Suc.IH [OF this] f show ?case by simp
qed

lemma exponent_normal:
  assumes "pow2 k \<le> \<bar>v\<bar>" and "\<bar>v\<bar> < pow2 (k + 1)" and "- 1022 \<le> k" and "k \<le> 1023"
  shows "exponent v = k"
  unfolding exponent_def using assms by (intro exponentLoop_eq) simp_all

lemma exponent_subnormal: "\<bar>v\<bar> < pow2 (- 1022) \<Longrightarrow> exponent v = - 1022"
proof -
  assume a: "\<bar>v\<bar> < pow2 (- 1022)"
  have "pow2 (- 1022) \<le> pow2 (1023 - int 2045 + 1)" by (rule pow2_mono) simp
  with a have "\<bar>v\<bar> < pow2 (1023 - int 2045 + 1)" by simp
  from exponentLoop_below [OF this] show ?thesis by (simp add: exponent_def)
qed

lemma exponentLoop_range: "j - int n \<le> exponentLoop n j w \<and> exponentLoop n j w \<le> j"
proof (induction n arbitrary: j)
  case 0
  then show ?case by simp
next
  case (Suc n)
  from Suc [of "j - 1"] show ?case by simp
qed

lemma exponent_range: "- 1022 \<le> exponent v \<and> exponent v \<le> 1023"
  using exponentLoop_range [of 1023 2045 "\<bar>v\<bar>"] by (simp add: exponent_def)

lemma roundTiesToEven_floor: "\<lfloor>v\<rfloor> \<le> roundTiesToEven v \<and> roundTiesToEven v \<le> \<lfloor>v\<rfloor> + 1"
  by (simp add: roundTiesToEven_def Let_def)

lemma roundTiesToEven_ge: "of_int n \<le> v \<Longrightarrow> n \<le> roundTiesToEven v"
proof -
  assume "of_int n \<le> v"
  then have "n \<le> \<lfloor>v\<rfloor>" by (simp add: le_floor_iff)
  with roundTiesToEven_floor [of v] show ?thesis by linarith
qed

lemma roundTiesToEven_le: "v \<le> of_int n \<Longrightarrow> roundTiesToEven v \<le> n"
proof -
  assume a: "v \<le> of_int n"
  then have f: "\<lfloor>v\<rfloor> \<le> n" by (simp add: floor_le_iff)
  show ?thesis
  proof (cases "\<lfloor>v\<rfloor> = n")
    case True
    with a have "v = of_int n" using of_int_floor_le [of v] by linarith
    then show ?thesis by (simp add: roundTiesToEven_def)
  next
    case False
    with f have "\<lfloor>v\<rfloor> + 1 \<le> n" by simp
    with roundTiesToEven_floor [of v] show ?thesis by linarith
  qed
qed

lemma roundToDouble_zero: "roundToDouble 0 = Num 0"
  using pow2_pos [of 1024] by (simp add: roundToDouble_def roundTiesToEven_def)

text \<open>Rounding inside a binade below the largest one cannot overflow.\<close>

lemma roundToDouble_normal:
  assumes lo: "pow2 k \<le> \<bar>v\<bar>" and hi: "\<bar>v\<bar> < pow2 (k + 1)"
    and k: "- 1022 \<le> k" "k \<le> 1022"
  shows "roundToDouble v = Num (of_int (roundTiesToEven (v / pow2 (k - 52))) * pow2 (k - 52))"
proof -
  let ?q = "pow2 (k - 52)"
  let ?m = "roundTiesToEven (v / ?q)"
  have e: "exponent v = k" using lo hi k by (intro exponent_normal) simp_all
  have q: "0 < ?q" by (rule pow2_pos)
  have "pow2 53 = of_int (2 ^ 53)" by (simp add: pow2_def)
  moreover have "53 + (k - 52) = k + 1" by simp
  ultimately have split: "pow2 (k + 1) = of_int (2 ^ 53) * ?q"
    using pow2_add [of 53 "k - 52"] by (simp only:)
  from hi have "\<bar>v\<bar> < of_int (2 ^ 53) * ?q" by (simp only: split)
  then have "v / ?q \<le> of_int (2 ^ 53)" "of_int (- (2 ^ 53)) \<le> v / ?q"
    using q by (simp_all add: field_simps abs_if split: if_splits)
  then have "?m \<le> 2 ^ 53" "- (2 ^ 53) \<le> ?m"
    by (simp_all only: roundTiesToEven_le roundTiesToEven_ge)
  then have "\<bar>real_of_int ?m\<bar> \<le> of_int (2 ^ 53)" by linarith
  then have "\<bar>real_of_int ?m * ?q\<bar> \<le> of_int (2 ^ 53) * ?q"
    using q by (simp add: abs_mult)
  also have "\<dots> = pow2 (k + 1)" by (simp only: split)
  also have "\<dots> \<le> pow2 1023" using k by (intro pow2_mono) simp
  also have "\<dots> < pow2 1024" by (simp add: pow2_def)
  finally have "\<bar>real_of_int ?m * ?q\<bar> < pow2 1024" .
  then show ?thesis by (simp add: roundToDouble_def e Let_def abs_if split: if_splits)
qed

lemma roundToDouble_nonneg: "0 \<le> v \<Longrightarrow> (\<exists>d\<ge>0. roundToDouble v = Num d) \<or> roundToDouble v = PosInfinity"
proof -
  assume a: "0 \<le> v"
  let ?q = "pow2 (exponent v - 52)"
  have "0 \<le> v / ?q" using a pow2_pos [of "exponent v - 52"] by simp
  then have "0 \<le> roundTiesToEven (v / ?q)" using roundTiesToEven_ge [of 0] by simp
  then have "0 \<le> of_int (roundTiesToEven (v / ?q)) * ?q"
    using pow2_pos [of "exponent v - 52"] by simp
  then show ?thesis using pow2_pos [of 1024] by (simp add: roundToDouble_def Let_def)
qed

lemma roundToDouble_nonpos: "v \<le> 0 \<Longrightarrow> (\<exists>d\<le>0. roundToDouble v = Num d) \<or> roundToDouble v = NegInfinity"
proof -
  assume a: "v \<le> 0"
  let ?q = "pow2 (exponent v - 52)"
  have "v / ?q \<le> 0" using a pow2_pos [of "exponent v - 52"] by (simp add: divide_le_0_iff)
  then have "roundTiesToEven (v / ?q) \<le> 0" using roundTiesToEven_le [of _ 0] by simp
  then have "of_int (roundTiesToEven (v / ?q)) * ?q \<le> 0"
    using pow2_pos [of "exponent v - 52"] by (simp add: mult_le_0_iff)
  then show ?thesis using pow2_pos [of 1024] by (simp add: roundToDouble_def Let_def)
qed

subsection \<open>The number returned is a count\<close>

text \<open>
  Radii are finite, so every circle area is a non-negative double or \<open>+Infinity\<close>, and so
  are the total, the quotient and the product; NaN and \<open>-Infinity\<close> do not arise.
\<close>

fun nonnegative :: "number \<Rightarrow> bool" where
  "nonnegative (Num a) = (0 \<le> a)"
| "nonnegative PosInfinity = True"
| "nonnegative x = False"

lemma roundToDouble_nonnegative: "0 \<le> v \<Longrightarrow> nonnegative (roundToDouble v)"
  using roundToDouble_nonneg [of v] by auto

lemma PACKING_EFFICIENCY_value: "PACKING_EFFICIENCY = Num (3602879701896397 / 2 ^ 52)"
  unfolding PACKING_EFFICIENCY_def
  by (subst roundToDouble_normal [of "- 1"]) (simp_all add: pow2_def roundTiesToEven_def)

lemma times_PI_50: "number_times Math_PI (Num 50) = Num (5526748243772219 / 2 ^ 45)"
  unfolding Math_PI_def number_times.simps
  by (subst roundToDouble_normal [of 7]) (simp_all add: pow2_def roundTiesToEven_def)

lemma agentArea_value:
  "number_times (number_times Math_PI (Num 50)) (Num 50) = Num (2158886032723523 / 2 ^ 38)"
  unfolding times_PI_50 number_times.simps
  by (subst roundToDouble_normal [of 12]) (simp_all add: pow2_def roundTiesToEven_def)

lemma Math_PI_positive: "\<exists>c>0. Math_PI = Num c"
  by (rule exI [of _ "884279719003555 / 2 ^ 48"]) (simp add: Math_PI_def)

lemma agentArea_positive:
  "\<exists>a>0. number_times (number_times Math_PI (Num 50)) (Num 50) = Num a"
  by (rule exI [of _ "2158886032723523 / 2 ^ 38"]) (simp add: agentArea_value)

lemma PACKING_EFFICIENCY_positive: "\<exists>e>0. PACKING_EFFICIENCY = Num e"
  by (rule exI [of _ "3602879701896397 / 2 ^ 52"]) (simp add: PACKING_EFFICIENCY_value)

lemma square_nonnegative:
  "nonnegative (number_times (number_times Math_PI (Num r)) (Num r))"
proof -
  from Math_PI_positive obtain c where c: "0 < c" "Math_PI = Num c" by blast
  show ?thesis
  proof (cases "0 \<le> r")
    case True
    with c(1) have "0 \<le> c * r" by simp
    from roundToDouble_nonneg [OF this] show ?thesis
    proof
      assume "\<exists>d\<ge>0. roundToDouble (c * r) = Num d"
      then obtain d where d: "0 \<le> d" "roundToDouble (c * r) = Num d" by blast
      from d(1) True have "0 \<le> d * r" by simp
      then show ?thesis by (simp add: c(2) d(2) roundToDouble_nonnegative)
    next
      assume inf: "roundToDouble (c * r) = PosInfinity"
      then have "r \<noteq> 0" using roundToDouble_zero by auto
      with True have "0 < r" by simp
      then show ?thesis by (simp add: c(2) inf infinity_def)
    qed
  next
    case False
    with c(1) have "c * r \<le> 0" by (simp add: mult_le_0_iff)
    from roundToDouble_nonpos [OF this] show ?thesis
    proof
      assume "\<exists>d\<le>0. roundToDouble (c * r) = Num d"
      then obtain d where d: "d \<le> 0" "roundToDouble (c * r) = Num d" by blast
      from d(1) False have "0 \<le> d * r" by (simp add: zero_le_mult_iff)
      then show ?thesis by (simp add: c(2) d(2) roundToDouble_nonnegative)
    next
      assume inf: "roundToDouble (c * r) = NegInfinity"
      with False show ?thesis by (simp add: c(2) inf infinity_def)
    qed
  qed
qed

lemma plus_nonnegative: "nonnegative a \<Longrightarrow> nonnegative b \<Longrightarrow> nonnegative (number_plus a b)"
  by (cases a; cases b) (simp_all add: roundToDouble_nonnegative)

lemma totalAreaLoop_nonnegative:
  "nonnegative totalArea \<Longrightarrow> nonnegative (totalAreaLoop totalArea ps)"
  by (induction ps arbitrary: totalArea) (simp_all add: plus_nonnegative square_nonnegative)

lemma calculateMaxAgentsValue_integer:
  "\<exists>n. 0 \<le> n \<and> n \<le> 10 \<and> calculateMaxAgentsValue z = Num (of_int n)"
proof -
  from agentArea_positive obtain a
    where a: "0 < a" "number_times (number_times Math_PI (Num 50)) (Num 50) = Num a" by blast
  from PACKING_EFFICIENCY_positive obtain e where e: "0 < e" "PACKING_EFFICIENCY = Num e"
    by blast
  let ?t = "totalAreaLoop (Num 0) (points z)"
  have t: "nonnegative ?t" by (rule totalAreaLoop_nonnegative) simp
  then have q: "nonnegative (number_divide ?t (Num a))"
    using a(1) by (cases ?t) (simp_all add: roundToDouble_nonnegative infinity_def)
  then have p: "nonnegative (number_times (number_divide ?t (Num a)) (Num e))"
    using e(1) by (cases "number_divide ?t (Num a)")
      (simp_all add: roundToDouble_nonnegative infinity_def)
  have v: "calculateMaxAgentsValue z
      = Math_max (Num 0) (Math_min (Math_floor (number_times (number_divide ?t (Num a)) (Num e)))
          (Num 10))"
    unfolding calculateMaxAgentsValue_def Let_def a(2) e(2) MAX_AGENTS_PER_ZONE_def ..
  show ?thesis
  proof (cases "number_times (number_divide ?t (Num a)) (Num e)")
    case (Num w)
    with p have w: "0 \<le> w" by simp
    let ?n = "max 0 (min \<lfloor>w\<rfloor> 10)"
    have "calculateMaxAgentsValue z = Num (of_int ?n)"
      unfolding v Num by (simp add: min_def max_def)
    moreover have "0 \<le> ?n \<and> ?n \<le> 10" by simp
    ultimately show ?thesis by blast
  next
    case PosInfinity
    have "calculateMaxAgentsValue z = Num (of_int 10)"
      unfolding v PosInfinity by simp
    then show ?thesis by (intro exI [of _ 10]) simp
  next
    case NegInfinity
    with p show ?thesis by simp
  next
    case NaN
    with p show ?thesis by simp
  qed
qed

lemma calculateMaxAgents_returned:
  "calculateMaxAgentsValue z = Num (of_int (calculateMaxAgents z))
   \<and> 0 \<le> calculateMaxAgents z \<and> calculateMaxAgents z \<le> 10"
proof -
  from calculateMaxAgentsValue_integer [of z] obtain n
    where n: "0 \<le> n" "n \<le> 10" "calculateMaxAgentsValue z = Num (of_int n)" by blast
  then show ?thesis by (simp add: calculateMaxAgents_def)
qed

subsection \<open>The areas of some circles, and three zones\<close>

lemma circleArea_50:
  "number_times (number_times Math_PI (Num 50)) (Num 50) = Num (2158886032723523 / 2 ^ 38)"
proof -
  have "number_times Math_PI (Num 50) = Num (5526748243772219 / 2 ^ 45)"
    unfolding Math_PI_def number_times.simps
    by (subst roundToDouble_normal [of 7]) (simp_all add: pow2_def roundTiesToEven_def)
  moreover have "number_times (Num (5526748243772219 / 2 ^ 45)) (Num 50)
      = Num (2158886032723523 / 2 ^ 38)"
    unfolding number_times.simps
    by (subst roundToDouble_normal [of 12]) (simp_all add: pow2_def roundTiesToEven_def)
  ultimately show ?thesis by (simp only:)
qed

lemma circleArea_15:
  "number_times (number_times Math_PI (Num 15)) (Num 15) = Num (3108795887121873 / 2 ^ 42)"
proof -
  have "number_times Math_PI (Num 15) = Num (3316048946263331 / 2 ^ 46)"
    unfolding Math_PI_def number_times.simps
    by (subst roundToDouble_normal [of 5]) (simp_all add: pow2_def roundTiesToEven_def)
  moreover have "number_times (Num (3316048946263331 / 2 ^ 46)) (Num 15)
      = Num (3108795887121873 / 2 ^ 42)"
    unfolding number_times.simps
    by (subst roundToDouble_normal [of 9]) (simp_all add: pow2_def roundTiesToEven_def)
  ultimately show ?thesis by (simp only:)
qed

lemma circleArea_20:
  "number_times (number_times Math_PI (Num 20)) (Num 20) = Num (5526748243772219 / 2 ^ 42)"
proof -
  have "number_times Math_PI (Num 20) = Num (4421398595017775 / 2 ^ 46)"
    unfolding Math_PI_def number_times.simps
    by (subst roundToDouble_normal [of 5]) (simp_all add: pow2_def roundTiesToEven_def)
  moreover have "number_times (Num (4421398595017775 / 2 ^ 46)) (Num 20)
      = Num (5526748243772219 / 2 ^ 42)"
    unfolding number_times.simps
    by (subst roundToDouble_normal [of 10]) (simp_all add: pow2_def roundTiesToEven_def)
  ultimately show ?thesis by (simp only:)
qed

lemma circleArea_10:
  "number_times (number_times Math_PI (Num 10)) (Num 10) = Num (5526748243772219 / 2 ^ 44)"
proof -
  have "number_times Math_PI (Num 10) = Num (4421398595017775 / 2 ^ 47)"
    unfolding Math_PI_def number_times.simps
    by (subst roundToDouble_normal [of 4]) (simp_all add: pow2_def roundTiesToEven_def)
  moreover have "number_times (Num (4421398595017775 / 2 ^ 47)) (Num 10)
      = Num (5526748243772219 / 2 ^ 44)"
    unfolding number_times.simps
    by (subst roundToDouble_normal [of 8]) (simp_all add: pow2_def roundTiesToEven_def)
  ultimately show ?thesis by (simp only:)
qed

lemma circleArea_60:
  "number_times (number_times Math_PI (Num 60)) (Num 60) = Num (3108795887121873 / 2 ^ 38)"
proof -
  have "number_times Math_PI (Num 60) = Num (3316048946263331 / 2 ^ 44)"
    unfolding Math_PI_def number_times.simps
    by (subst roundToDouble_normal [of 7]) (simp_all add: pow2_def roundTiesToEven_def)
  moreover have "number_times (Num (3316048946263331 / 2 ^ 44)) (Num 60)
      = Num (3108795887121873 / 2 ^ 38)"
    unfolding number_times.simps
    by (subst roundToDouble_normal [of 13]) (simp_all add: pow2_def roundTiesToEven_def)
  ultimately show ?thesis by (simp only:)
qed

lemma area_sum_50:
  "number_plus (Num 0) (Num (2158886032723523 / 2 ^ 38))
     = Num (2158886032723523 / 2 ^ 38)"
  unfolding number_plus.simps
  by (subst roundToDouble_normal [of 12]) (simp_all add: pow2_def roundTiesToEven_def)

lemma boundary_sum_2:
  "number_plus (Num (2158886032723523 / 2 ^ 38)) (Num (3108795887121873 / 2 ^ 42))
     = Num (73537055489645 / 2 ^ 33)"
  unfolding number_plus.simps
  by (subst roundToDouble_normal [of 13]) (simp_all add: pow2_def roundTiesToEven_def)

lemma boundary_sum_3:
  "number_plus (Num (73537055489645 / 2 ^ 33)) (Num (5526748243772219 / 2 ^ 42))
     = Num (5397215081808807 / 2 ^ 39)"
  unfolding number_plus.simps
  by (subst roundToDouble_normal [of 13]) (simp_all add: pow2_def roundTiesToEven_def)

lemma boundary_quotient:
  "number_divide (Num (5397215081808807 / 2 ^ 39)) (Num (2158886032723523 / 2 ^ 38))
     = Num (5629499534213119 / 2 ^ 52)"
  unfolding number_divide.simps
  by (subst roundToDouble_normal [of 0]) (simp_all add: pow2_def roundTiesToEven_def)

lemma boundary_product:
  "number_times (Num (5629499534213119 / 2 ^ 52)) (Num (3602879701896397 / 2 ^ 52))
     = Num (9007199254740991 / 2 ^ 53)"
  unfolding number_times.simps
  by (subst roundToDouble_normal [of "- 1"]) (simp_all add: pow2_def roundTiesToEven_def)

lemma street_sum_2:
  "number_plus (Num (2158886032723523 / 2 ^ 38)) (Num (2158886032723523 / 2 ^ 38))
     = Num (2158886032723523 / 2 ^ 37)"
  unfolding number_plus.simps
  by (subst roundToDouble_normal [of 13]) (simp_all add: pow2_def roundTiesToEven_def)

lemma street_sum_3:
  "number_plus (Num (2158886032723523 / 2 ^ 37)) (Num (2158886032723523 / 2 ^ 38))
     = Num (6476658098170569 / 2 ^ 38)"
  unfolding number_plus.simps
  by (subst roundToDouble_normal [of 14]) (simp_all add: pow2_def roundTiesToEven_def)

lemma street_quotient:
  "number_divide (Num (6476658098170569 / 2 ^ 38)) (Num (2158886032723523 / 2 ^ 38))
     = Num 3"
  unfolding number_divide.simps
  by (subst roundToDouble_normal [of 1]) (simp_all add: pow2_def roundTiesToEven_def)

lemma street_product:
  "number_times (Num 3) (Num (3602879701896397 / 2 ^ 52))
     = Num (1351079888211149 / 2 ^ 49)"
  unfolding number_times.simps
  by (subst roundToDouble_normal [of 1]) (simp_all add: pow2_def roundTiesToEven_def)

lemma mixed_sum_1:
  "number_plus (Num 0) (Num (5526748243772219 / 2 ^ 44))
     = Num (5526748243772219 / 2 ^ 44)"
  unfolding number_plus.simps
  by (subst roundToDouble_normal [of 8]) (simp_all add: pow2_def roundTiesToEven_def)

lemma mixed_sum_2:
  "number_plus (Num (5526748243772219 / 2 ^ 44)) (Num (3108795887121873 / 2 ^ 38))
     = Num (1597575664215407 / 2 ^ 37)"
  unfolding number_plus.simps
  by (subst roundToDouble_normal [of 13]) (simp_all add: pow2_def roundTiesToEven_def)

lemma mixed_quotient:
  "number_divide (Num (1597575664215407 / 2 ^ 37)) (Num (2158886032723523 / 2 ^ 38))
     = Num (3332663724254167 / 2 ^ 51)"
  unfolding number_divide.simps
  by (subst roundToDouble_normal [of 0]) (simp_all add: pow2_def roundTiesToEven_def)

lemma mixed_product:
  "number_times (Num (3332663724254167 / 2 ^ 51)) (Num (3602879701896397 / 2 ^ 52))
     = Num (5332261958806667 / 2 ^ 52)"
  unfolding number_times.simps
  by (subst roundToDouble_normal [of 0]) (simp_all add: pow2_def roundTiesToEven_def)

lemma reversed_sum_1:
  "number_plus (Num 0) (Num (5526748243772219 / 2 ^ 42))
     = Num (5526748243772219 / 2 ^ 42)"
  unfolding number_plus.simps
  by (subst roundToDouble_normal [of 10]) (simp_all add: pow2_def roundTiesToEven_def)

lemma reversed_sum_2:
  "number_plus (Num (5526748243772219 / 2 ^ 42)) (Num (3108795887121873 / 2 ^ 42))
     = Num (2158886032723523 / 2 ^ 40)"
  unfolding number_plus.simps
  by (subst roundToDouble_normal [of 10]) (simp_all add: pow2_def roundTiesToEven_def)

lemma reversed_sum_3:
  "number_plus (Num (2158886032723523 / 2 ^ 40)) (Num (2158886032723523 / 2 ^ 38))
     = Num (674651885226101 / 2 ^ 36)"
  unfolding number_plus.simps
  by (subst roundToDouble_normal [of 13]) (simp_all add: pow2_def roundTiesToEven_def)

lemma reversed_quotient:
  "number_divide (Num (674651885226101 / 2 ^ 36)) (Num (2158886032723523 / 2 ^ 38))
     = Num (5629499534213121 / 2 ^ 52)"
  unfolding number_divide.simps
  by (subst roundToDouble_normal [of 0]) (simp_all add: pow2_def roundTiesToEven_def)

lemma reversed_product:
  "number_times (Num (5629499534213121 / 2 ^ 52)) (Num (3602879701896397 / 2 ^ 52))
     = Num (4503599627370497 / 2 ^ 52)"
  unfolding number_times.simps
  by (subst roundToDouble_normal [of 0]) (simp_all add: pow2_def roundTiesToEven_def)

section \<open>The agent state machine\<close>

subsection \<open>Phases only advance\<close>

lemma updateAgent_rank:
  "phase_rank (agent_phase a) \<le> phase_rank (agent_phase (updateAgent lot a))"
  by (cases "agent_phase a")
     (simp_all add: updateAgent_def updateAgentTravelingToNode_def updateAgentTravelingToArea_def
        updateAgentSettling_def Let_def)

lemma updateAgentsLoop_shape:
  "\<exists>ys. updateAgentsLoop gen done rest = done @ ys \<and> length ys = length rest \<and>
        (\<forall>i<length rest. \<exists>lot. ys ! i = updateAgent lot (rest ! i))"
proof (induction rest arbitrary: "done")
  case Nil
  then show ?case by simp
next
  case (Cons a rest)
  let ?a' = "updateAgent (\<lambda>a'. gen (done @ a' # rest) a') a"
  from Cons.IH [of "done @ [?a']"] obtain ys where
    ys: "updateAgentsLoop gen (done @ [?a']) rest = (done @ [?a']) @ ys"
        "length ys = length rest"
        "\<forall>i<length rest. \<exists>lot. ys ! i = updateAgent lot (rest ! i)"
    by blast
  have "\<forall>i<length (a # rest). \<exists>lot. (?a' # ys) ! i = updateAgent lot ((a # rest) ! i)"
  proof (intro allI impI)
    fix i assume "i < length (a # rest)"
    then show "\<exists>lot. (?a' # ys) ! i = updateAgent lot ((a # rest) ! i)"
      using ys(3) by (cases i) auto
  qed
  with ys(1,2) show ?case by auto
qed

lemma updateAgents_length: "length (updateAgents gen ags) = length ags"
  using updateAgentsLoop_shape [of gen "[]" ags] by (auto simp: updateAgents_def)

lemma updateAgents_nth:
  "i < length ags \<Longrightarrow> \<exists>lot. updateAgents gen ags ! i = updateAgent lot (ags ! i)"
  using updateAgentsLoop_shape [of gen "[]" ags] by (auto simp: updateAgents_def)

lemma ticks_length: "length (ticks gen n ags) = length ags"
  by (induction n arbitrary: ags) (simp_all add: updateAgents_length)

lemma ticks_Suc_right: "ticks gen (Suc n) ags = updateAgents gen (ticks gen n ags)"
  by (induction n arbitrary: ags) simp_all

lemma ticks_rank_step:
  "i < length ags \<Longrightarrow>
   phase_rank (agent_phase (ticks gen n ags ! i))
     \<le> phase_rank (agent_phase (ticks gen (Suc n) ags ! i))"
proof -
  assume i: "i < length ags"
  then have "i < length (ticks gen n ags)" by (simp add: ticks_length)
  from updateAgents_nth [OF this, of gen] obtain lot where
    "updateAgents gen (ticks gen n ags) ! i = updateAgent lot (ticks gen n ags ! i)" ..
  then show ?thesis
    unfolding ticks_Suc_right using updateAgent_rank by metis
qed

lemma ticks_rank_mono:
  "m \<le> n \<Longrightarrow> i < length ags \<Longrightarrow>
   phase_rank (agent_phase (ticks gen m ags ! i))
     \<le> phase_rank (agent_phase (ticks gen n ags ! i))"
proof (induction n)
  case 0
  then show ?case by simp
next
  case (Suc n)
  show ?case
  proof (cases "m = Suc n")
    case True
    then show ?thesis by simp
  next
    case False
    with Suc.prems have "m \<le> n" by simp
    from Suc.IH [OF this Suc.prems(2)] ticks_rank_step [OF Suc.prems(2), of gen n]
    show ?thesis by (rule order_trans)
  qed
qed

text \<open>
  Claim C6. Over any run of ticks the phase of an agent never moves back in the order
  \<open>traveling_to_node, traveling_to_area, settling, settled\<close>: of two samples the later one
  is never earlier in that order. Only \<open>updateAgents\<close> writes the phase; spawning appends
  fresh agents and removal deletes whole agents.
\<close>

theorem phase_never_regresses:
  "m \<le> n \<Longrightarrow> i < length ags \<Longrightarrow>
   length (ticks gen n ags) = length ags \<and>
   phase_rank (agent_phase (ticks gen m ags ! i))
     \<le> phase_rank (agent_phase (ticks gen n ags ! i))"
  by (simp add: ticks_length ticks_rank_mono)

lemma agent_example_tick1: "agent_phase (ticks (\<lambda>_ _. ()) 1 [agent_example] ! 0) = traveling_to_area"
  by (simp add: agent_example_def updateAgents_def updateAgent_def
      updateAgentTravelingToNode_def)

lemma agent_example_tick3: "agent_phase (ticks (\<lambda>_ _. ()) 3 [agent_example] ! 0) = settled"
  by (simp add: eval_nat_numeral agent_example_def updateAgents_def updateAgent_def
      updateAgentTravelingToNode_def updateAgentTravelingToArea_def updateAgentSettling_def
      hypot_zero_right Let_def)


theorem phase_never_regresses_witness:
  "(1::nat) \<le> 3 \<and> (0::nat) < length [agent_example] \<and>
   agent_phase (ticks (\<lambda>_ _. ()) 1 [agent_example] ! 0) = traveling_to_area \<and>
   agent_phase (ticks (\<lambda>_ _. ()) 3 [agent_example] ! 0) = settled \<and>
   phase_rank (agent_phase (ticks (\<lambda>_ _. ()) 1 [agent_example] ! 0))
     \<le> phase_rank (agent_phase (ticks (\<lambda>_ _. ()) 3 [agent_example] ! 0))"
proof -
  have h1: "(1::nat) \<le> 3" by simp
  have h2: "(0::nat) < length [agent_example]" by simp
  from phase_never_regresses [OF h1 h2, of "\<lambda>_ _. ()"] agent_example_tick1 agent_example_tick3 h1 h2
  show ?thesis by blast
qed

subsection \<open>Every agent settles\<close>

lemma move_toward:
  assumes s: "0 < s" and le: "s \<le> hypot dx dy"
  shows "hypot (dx - dx / hypot dx dy * s) (dy - dy / hypot dx dy * s) = hypot dx dy - s"
proof -
  let ?d = "hypot dx dy"
  have d: "0 < ?d" using s le by linarith
  have k: "0 \<le> 1 - s / ?d" using le d by simp
  have "dx - dx / ?d * s = (1 - s / ?d) * dx" "dy - dy / ?d * s = (1 - s / ?d) * dy"
    by (simp_all add: algebra_simps)
  then have "hypot (dx - dx / ?d * s) (dy - dy / ?d * s) = (1 - s / ?d) * ?d"
    using hypot_scale [OF k, of dx dy] by simp
  also have "\<dots> = ?d - s" using d by (simp add: field_simps)
  finally show ?thesis .
qed

lemma move_toward_pos:
  assumes s: "0 < s" and le: "s \<le> hypot (tx - x) (ty - y)"
  shows "hypot (tx - (x + (tx - x) * s / hypot (tx - x) (ty - y)))
               (ty - (y + (ty - y) * s / hypot (tx - x) (ty - y)))
         = hypot (tx - x) (ty - y) - s"
proof -
  let ?d = "hypot (tx - x) (ty - y)"
  have e1: "tx - (x + (tx - x) * s / ?d) = (tx - x) - (tx - x) / ?d * s"
    by simp
  have e2: "ty - (y + (ty - y) * s / ?d) = (ty - y) - (ty - y) / ?d * s"
    by simp
  show ?thesis unfolding e1 e2 by (rule move_toward [OF s le])
qed

lemma floor_step:
  assumes s: "0 < s" and le: "s \<le> (d::real)"
  shows "nat \<lfloor>(d - s) / s\<rfloor> < nat \<lfloor>d / s\<rfloor>"
proof -
  have "(d - s) / s = d / s - 1" using s by (simp add: field_simps)
  then have f: "\<lfloor>(d - s) / s\<rfloor> = \<lfloor>d / s\<rfloor> - 1" by simp
  have "1 \<le> d / s" using s le by simp
  then have "1 \<le> \<lfloor>d / s\<rfloor>" by linarith
  with f show ?thesis by simp
qed

lemma updateAgent_speed: "speed (updateAgent lot a) = speed a"
  by (simp add: updateAgent_def updateAgentTravelingToNode_def updateAgentTravelingToArea_def
        updateAgentSettling_def Let_def)

lemma updateAgent_progress:
  assumes s: "0 < speed a" and ns: "agent_phase a \<noteq> settled"
  shows "(progress (updateAgent lot a), progress a) \<in> less_than <*lex*> less_than <*lex*> less_than"
proof (cases "agent_phase a")
  case traveling_to_node
  show ?thesis
  proof (cases "pathToNode a = [] \<or> length (pathToNode a) \<le> pathToNodeIndex a")
    case True
    then show ?thesis using traveling_to_node
      by (auto simp: updateAgent_def updateAgentTravelingToNode_def progress_def)
  next
    case False
    let ?t = "pathToNode a ! pathToNodeIndex a"
    let ?dx = "px ?t - agent_x a" and ?dy = "py ?t - agent_y a"
    show ?thesis
    proof (cases "hypot ?dx ?dy < speed a")
      case True
      then show ?thesis using traveling_to_node False
        by (auto simp: updateAgent_def updateAgentTravelingToNode_def progress_def Let_def)
    next
      case far: False
      then have le: "speed a \<le> hypot ?dx ?dy" by simp
      have "target_dist (updateAgent lot a) = hypot ?dx ?dy - speed a"
        using traveling_to_node False far move_toward_pos [OF s le]
        by (simp add: updateAgent_def updateAgentTravelingToNode_def target_dist_def Let_def)
      moreover have "target_dist a = hypot ?dx ?dy"
        using traveling_to_node False by (simp add: target_dist_def)
      ultimately have "nat \<lfloor>target_dist (updateAgent lot a) / speed a\<rfloor> < nat \<lfloor>target_dist a / speed a\<rfloor>"
        using floor_step [OF s le] by simp
      then show ?thesis using traveling_to_node False far
        by (simp add: updateAgent_def updateAgentTravelingToNode_def progress_def Let_def)
    qed
  qed
next
  case traveling_to_area
  let ?dx = "px (finalPosition a) - agent_x a" and ?dy = "py (finalPosition a) - agent_y a"
  show ?thesis
  proof (cases "hypot ?dx ?dy < speed a")
    case True
    then show ?thesis using traveling_to_area
      by (simp add: updateAgent_def updateAgentTravelingToArea_def progress_def Let_def)
  next
    case far: False
    then have le: "speed a \<le> hypot ?dx ?dy" by simp
    have "target_dist (updateAgent lot a) = hypot ?dx ?dy - speed a"
      using traveling_to_area far move_toward_pos [OF s le]
      by (simp add: updateAgent_def updateAgentTravelingToArea_def target_dist_def dist_to_final_def Let_def)
    moreover have "target_dist a = hypot ?dx ?dy"
      using traveling_to_area by (simp add: target_dist_def dist_to_final_def)
    ultimately have "nat \<lfloor>target_dist (updateAgent lot a) / speed a\<rfloor> < nat \<lfloor>target_dist a / speed a\<rfloor>"
      using floor_step [OF s le] by simp
    then show ?thesis using traveling_to_area far
      by (simp add: updateAgent_def updateAgentTravelingToArea_def progress_def Let_def)
  qed
next
  case settling
  let ?dx = "px (finalPosition a) - agent_x a" and ?dy = "py (finalPosition a) - agent_y a"
  show ?thesis
  proof (cases "hypot ?dx ?dy < speed a")
    case True
    then show ?thesis using settling
      by (simp add: updateAgent_def updateAgentSettling_def progress_def Let_def)
  next
    case far: False
    then have le: "speed a \<le> hypot ?dx ?dy" by simp
    have "target_dist (updateAgent lot a) = hypot ?dx ?dy - speed a"
      using settling far move_toward_pos [OF s le]
      by (simp add: updateAgent_def updateAgentSettling_def target_dist_def dist_to_final_def Let_def)
    moreover have "target_dist a = hypot ?dx ?dy"
      using settling by (simp add: target_dist_def dist_to_final_def)
    ultimately have "nat \<lfloor>target_dist (updateAgent lot a) / speed a\<rfloor> < nat \<lfloor>target_dist a / speed a\<rfloor>"
      using floor_step [OF s le] by simp
    then show ?thesis using settling far
      by (simp add: updateAgent_def updateAgentSettling_def progress_def Let_def)
  qed
next
  case settled
  with ns show ?thesis by simp
qed

lemma ticks_reaches_settled:
  assumes "i < length ags" and "0 < speed (ags ! i)"
  shows "\<exists>n. agent_phase (ticks gen n ags ! i) = settled"
proof -
  have "wf (inv_image (less_than <*lex*> less_than <*lex*> less_than)
              (\<lambda>ags :: 'a agent list. progress (ags ! i)))"
    by (intro wf_inv_image wf_lex_prod wf_less_than)
  then show ?thesis using assms
  proof (induct ags rule: wf_induct_rule)
    case (less ags)
    show ?case
    proof (cases "agent_phase (ags ! i) = settled")
      case True
      then have "agent_phase (ticks gen 0 ags ! i) = settled" by simp
      then show ?thesis by blast
    next
      case False
      let ?next = "updateAgents gen ags"
      from updateAgents_nth [OF less.prems(1), of gen] obtain lot where
        nxt: "?next ! i = updateAgent lot (ags ! i)" ..
      have "(progress (?next ! i), progress (ags ! i))
              \<in> less_than <*lex*> less_than <*lex*> less_than"
        unfolding nxt by (rule updateAgent_progress [OF less.prems(2) False])
      then have "(?next, ags) \<in> inv_image (less_than <*lex*> less_than <*lex*> less_than)
              (\<lambda>ags. progress (ags ! i))"
        by simp
      moreover have "i < length ?next" using less.prems(1) by (simp add: updateAgents_length)
      moreover have "0 < speed (?next ! i)" using less.prems(2) by (simp add: nxt updateAgent_speed)
      ultimately obtain n where "agent_phase (ticks gen n ?next ! i) = settled"
        using less.hyps by blast
      then have "agent_phase (ticks gen (Suc n) ags ! i) = settled" by simp
      then show ?thesis by blast
    qed
  qed
qed

lemma step_far:
  assumes ph: "agent_phase a = traveling_to_area \<or> agent_phase a = settling"
    and s: "0 < speed a" and le: "speed a \<le> dist_to_final a"
  shows "dist_to_final (updateAgent lot a) = dist_to_final a - speed a"
    and "agent_phase (updateAgent lot a) = agent_phase a"
    and "agent_x (updateAgent lot a) =
           agent_x a + (px (finalPosition a) - agent_x a) / dist_to_final a * speed a"
    and "agent_y (updateAgent lot a) =
           agent_y a + (py (finalPosition a) - agent_y a) / dist_to_final a * speed a"
proof -
  have nl: "\<not> hypot (px (finalPosition a) - agent_x a) (py (finalPosition a) - agent_y a) < speed a"
    using le by (simp add: dist_to_final_def)
  have le': "speed a \<le> hypot (px (finalPosition a) - agent_x a) (py (finalPosition a) - agent_y a)"
    using le by (simp add: dist_to_final_def)
  show "dist_to_final (updateAgent lot a) = dist_to_final a - speed a"
    using ph nl move_toward_pos [OF s le']
    by (auto simp: updateAgent_def updateAgentTravelingToArea_def updateAgentSettling_def
        dist_to_final_def Let_def)
  show "agent_phase (updateAgent lot a) = agent_phase a"
    using ph nl
    by (auto simp: updateAgent_def updateAgentTravelingToArea_def updateAgentSettling_def Let_def)
  show "agent_x (updateAgent lot a) =
           agent_x a + (px (finalPosition a) - agent_x a) / dist_to_final a * speed a"
    using ph nl
    by (auto simp: updateAgent_def updateAgentTravelingToArea_def updateAgentSettling_def
        dist_to_final_def Let_def)
  show "agent_y (updateAgent lot a) =
           agent_y a + (py (finalPosition a) - agent_y a) / dist_to_final a * speed a"
    using ph nl
    by (auto simp: updateAgent_def updateAgentTravelingToArea_def updateAgentSettling_def
        dist_to_final_def Let_def)
qed

lemma step_near_area:
  assumes "agent_phase a = traveling_to_area" and "dist_to_final a < speed a"
  shows "updateAgent lot a = a\<lparr>agent_phase := settling\<rparr>"
  using assms by (simp add: updateAgent_def updateAgentTravelingToArea_def dist_to_final_def Let_def)

lemma step_near_settling:
  assumes "agent_phase a = settling" and "dist_to_final a < speed a"
  shows "agent_phase (updateAgent lot a) = settled"
    and "agent_x (updateAgent lot a) = px (finalPosition a)"
    and "agent_y (updateAgent lot a) = py (finalPosition a)"
  using assms by (simp_all add: updateAgent_def updateAgentSettling_def dist_to_final_def Let_def)

section \<open>World state\<close>

record buildMode =
  active :: bool
  selectedType :: "string option"
  brushSize :: real
  lastPaintX :: "real option"
  lastPaintY :: "real option"

record waypoint =
  wid :: nat
  wx :: real
  wy :: real
  roadRadius :: "real option"
  segmentIndex :: "real option"
  isRoadCenter :: bool
  isIntermediate :: bool
  isIntersection :: bool
  isApproach :: bool
  parentIntersection :: "nat option"

record roadNetwork =
  rn_points :: "waypoint list"
  connections :: "nat list list"
  edgePoints :: "nat list"
  zoneEntries :: "nat \<Rightarrow> nat list option"
  needsRebuild :: bool

record 'l game =
  worldWidth :: real
  worldHeight :: real
  buildMode :: buildMode
  residentialZones :: "zone list"
  roadZones :: "zone list"
  zoneConnections :: "nat \<Rightarrow> bool option"
  needsConnectionUpdate :: bool
  agents :: "'l agent list"
  agentSpawnQueue :: "'l agent list"
  lastSpawnTime :: real
  roadNetwork :: roadNetwork

section \<open>Zone store\<close>

text \<open>
  The loop shared by \<open>eraseZone\<close> (for both zone lists) and by the road branch of
  \<open>paintZone\<close>: from the last zone down to the first, keep the circles whose centre is at
  least \<open>r\<close> away from \<open>(x, y)\<close> and splice out a zone that is left empty. The counter is
  the number of zones still to visit, so the zone visited is the one at index \<open>i\<close>.
\<close>

fun eraseCirclesLoop :: "real \<Rightarrow> real \<Rightarrow> real \<Rightarrow> nat \<Rightarrow> zone list \<Rightarrow> zone list" where
  "eraseCirclesLoop x y r 0 zs = zs"
| "eraseCirclesLoop x y r (Suc i) zs =
     (let z = (zs ! i)\<lparr>points := filter (\<lambda>p. hypot (x - cx p) (y - cy p) \<ge> r) (points (zs ! i))\<rparr>
      in eraseCirclesLoop x y r i
           (if points z = [] then take i zs @ drop (Suc i) zs else zs[i := z]))"

text \<open>
  The sampling guard shared by \<open>eraseZone\<close> and \<open>paintZone\<close>: an unforced call closer
  than \<open>0.15\<close> brush sizes to the last recorded position is dropped. (\<open>paintZone\<close> spells
  the distance with \<open>Math.sqrt\<close>, the same number.) The rendering caches that both
  functions invalidate are not part of the state modelled here.
\<close>

definition tooCloseToLast :: "buildMode \<Rightarrow> real \<Rightarrow> real \<Rightarrow> bool \<Rightarrow> bool" where
  "tooCloseToLast bm x y force =
     (\<not> force \<and> lastPaintX bm \<noteq> None \<and> lastPaintY bm \<noteq> None \<and>
      hypot (x - the (lastPaintX bm)) (y - the (lastPaintY bm)) < brushSize bm * (15 / 100))"

definition eraseZone :: "real \<Rightarrow> real \<Rightarrow> bool \<Rightarrow> 'l game \<Rightarrow> 'l game" where
  "eraseZone x y forceErase g =
     (if \<not> active (buildMode g) then g
      else if tooCloseToLast (buildMode g) x y forceErase then g
      else
        let g1 = g\<lparr>buildMode := (buildMode g)\<lparr>lastPaintX := Some x, lastPaintY := Some y\<rparr>\<rparr>;
            r = brushSize (buildMode g1);
            g2 = g1\<lparr>residentialZones :=
                    eraseCirclesLoop x y r (length (residentialZones g1)) (residentialZones g1)\<rparr>;
            g3 = g2\<lparr>roadZones := eraseCirclesLoop x y r (length (roadZones g2)) (roadZones g2)\<rparr>
        in g3\<lparr>needsConnectionUpdate := True,
               roadNetwork := (roadNetwork g3)\<lparr>needsRebuild := True\<rparr>\<rparr>)"

text \<open>Indices of the zones with a circle centre closer than \<open>mergeDistance\<close>.\<close>

definition matchedIndices :: "real \<Rightarrow> real \<Rightarrow> real \<Rightarrow> zone list \<Rightarrow> nat list" where
  "matchedIndices x y mergeDistance zs =
     filter (\<lambda>i. list_ex (\<lambda>p. hypot (x - cx p) (y - cy p) < mergeDistance) (points (zs ! i)))
       [0 ..< length zs]"

text \<open>
  \<open>toRemove.forEach\<close>: append the circles of zone \<open>idx\<close> to the primary zone, then splice
  zone \<open>idx\<close> out.
\<close>

fun consolidate :: "nat \<Rightarrow> nat list \<Rightarrow> zone list \<Rightarrow> zone list" where
  "consolidate primaryIndex [] zs = zs"
| "consolidate primaryIndex (idx # toRemove) zs =
     (let zs1 = zs[primaryIndex := (zs ! primaryIndex)
                     \<lparr>points := points (zs ! primaryIndex) @ points (zs ! idx)\<rparr>]
      in consolidate primaryIndex toRemove (take idx zs1 @ drop (Suc idx) zs1))"

definition mergeIntoZones :: "zoneType \<Rightarrow> circle \<Rightarrow> real \<Rightarrow> zone list \<Rightarrow> zone list" where
  "mergeIntoZones kind newZonePoint mergeDistance zs =
     (let matched = matchedIndices (cx newZonePoint) (cy newZonePoint) mergeDistance zs
      in if matched = [] then zs @ [\<lparr>ztype = kind, points = [newZonePoint]\<rparr>]
         else
           let primaryIndex = hd matched;
               zs1 = zs[primaryIndex := (zs ! primaryIndex)
                          \<lparr>points := points (zs ! primaryIndex) @ [newZonePoint]\<rparr>];
               toRemove = rev (sort (remdups (tl matched)))
           in consolidate primaryIndex toRemove zs1)"

definition overlapsWithRoad :: "real \<Rightarrow> real \<Rightarrow> real \<Rightarrow> zone list \<Rightarrow> bool" where
  "overlapsWithRoad x y overlapRadius rzs =
     list_ex (\<lambda>z. list_ex (\<lambda>p. hypot (x - cx p) (y - cy p) < overlapRadius) (points z)) rzs"

definition paintResidential :: "real \<Rightarrow> real \<Rightarrow> 'l game \<Rightarrow> 'l game" where
  "paintResidential x y g =
     (let newZonePoint = \<lparr>cx = x, cy = y, radius = brushSize (buildMode g)\<rparr>;
          mergeDistance = brushSize (buildMode g) * (12 / 10)
      in g\<lparr>residentialZones :=
              mergeIntoZones residential newZonePoint mergeDistance (residentialZones g),
            needsConnectionUpdate := True,
            roadNetwork := (roadNetwork g)\<lparr>needsRebuild := True\<rparr>\<rparr>)"

definition paintRoad :: "real \<Rightarrow> real \<Rightarrow> 'l game \<Rightarrow> 'l game" where
  "paintRoad x y g =
     (let newZonePoint = \<lparr>cx = x, cy = y, radius = brushSize (buildMode g)\<rparr>;
          overlapRadius = brushSize (buildMode g);
          g1 = g\<lparr>residentialZones :=
                   eraseCirclesLoop x y overlapRadius (length (residentialZones g))
                     (residentialZones g)\<rparr>;
          mergeDistance = brushSize (buildMode g) * (12 / 10)
      in g1\<lparr>roadZones := mergeIntoZones road newZonePoint mergeDistance (roadZones g1),
             needsConnectionUpdate := True,
             roadNetwork := (roadNetwork g1)\<lparr>needsRebuild := True\<rparr>\<rparr>)"

text \<open>
  \<open>paintZone\<close>. A missing or empty \<open>selectedType\<close> is falsy. The two branches test
  \<open>startsWith('residential')\<close> and \<open>=== 'road'\<close> one after the other; a residential
  stroke that lies on a road returns before anything but the last position is written.
\<close>

definition paintZone :: "real \<Rightarrow> real \<Rightarrow> bool \<Rightarrow> 'l game \<Rightarrow> 'l game" where
  "paintZone x y forcePaint g =
     (case selectedType (buildMode g) of
        None \<Rightarrow> g
      | Some ty \<Rightarrow>
          if \<not> active (buildMode g) \<or> ty = [] then g
          else if tooCloseToLast (buildMode g) x y forcePaint then g
          else
            let g1 = g\<lparr>buildMode := (buildMode g)\<lparr>lastPaintX := Some x, lastPaintY := Some y\<rparr>\<rparr>
            in if prefix ''residential'' ty
               then (if overlapsWithRoad x y (brushSize (buildMode g1)) (roadZones g1) then g1
                     else let g2 = paintResidential x y g1
                          in if ty = ''road'' then paintRoad x y g2 else g2)
               else if ty = ''road'' then paintRoad x y g1 else g1)"







definition emptyNetwork :: roadNetwork where
  "emptyNetwork = \<lparr>rn_points = [], connections = [], edgePoints = [],
     zoneEntries = (\<lambda>_. None), needsRebuild = True\<rparr>"

text \<open>
  A world with one residential circle of radius 50 at \<open>(1000, 1000)\<close>, the brush at its
  default size 50 and the last stroke recorded at the centre of that circle.
\<close>

definition world_example :: "string option \<Rightarrow> unit game" where
  "world_example ty = \<lparr>worldWidth = 10000, worldHeight = 10000,
     buildMode = \<lparr>active = True, selectedType = ty, brushSize = 50,
                  lastPaintX = Some 1000, lastPaintY = Some 1000\<rparr>,
     residentialZones = [\<lparr>ztype = residential, points = [\<lparr>cx = 1000, cy = 1000, radius = 50\<rparr>]\<rparr>],
     roadZones = [], zoneConnections = (\<lambda>_. None), needsConnectionUpdate = False,
     agents = [], agentSpawnQueue = [], lastSpawnTime = 0, roadNetwork = emptyNetwork\<rparr>"

















section \<open>A zone at the capacity boundary\<close>

text \<open>
  Three clicks in residential build mode, the brush stepped from its default 50 down to
  15 with the key \<open>[\<close> and up to 20 with \<open>]\<close>: each click is a forced \<open>paintZone\<close>, and each
  stroke lies within the merge distance of the circle before it. The squares of the
  radii add up to \<open>3125\<close>, which is \<open>2500 / 0.8\<close>.
\<close>

definition boundary_zone :: zone where
  "boundary_zone = \<lparr>ztype = residential,
     points = [\<lparr>cx = 1000, cy = 1000, radius = 50\<rparr>, \<lparr>cx = 1010, cy = 1000, radius = 15\<rparr>,
               \<lparr>cx = 1020, cy = 1000, radius = 20\<rparr>]\<rparr>"

definition boundary_strokes :: "unit game" where
  "boundary_strokes =
     (let g0 = world_example (Some ''residential'');
          g1 = paintZone 1010 1000 True (g0\<lparr>buildMode := (buildMode g0)\<lparr>brushSize := 15\<rparr>\<rparr>);
          g2 = paintZone 1020 1000 True (g1\<lparr>buildMode := (buildMode g1)\<lparr>brushSize := 20\<rparr>\<rparr>)
      in g2)"

lemma boundary_painted: "residentialZones boundary_strokes = [boundary_zone]"
  by (simp add: boundary_strokes_def boundary_zone_def world_example_def paintZone_def
      paintResidential_def tooCloseToLast_def overlapsWithRoad_def mergeIntoZones_def
      matchedIndices_def hypot_zero_right Let_def)

lemma boundary_area: "totalCircleArea boundary_zone = perAgentFootprintArea / (8 / 10)"
  by (simp add: totalCircleArea_def perAgentFootprintArea_def boundary_zone_def)

lemma boundary_total:
  "totalAreaLoop (Num 0) (points boundary_zone) = Num (5397215081808807 / 2 ^ 39)"
  by (simp only: boundary_zone_def zone.select_convs circle.select_convs totalAreaLoop.simps
      circleArea_50 circleArea_15 circleArea_20 area_sum_50 boundary_sum_2 boundary_sum_3)

lemma boundary_capacity: "calculateMaxAgents boundary_zone = 0"
  unfolding calculateMaxAgents_def calculateMaxAgentsValue_def Let_def boundary_total
    circleArea_50 PACKING_EFFICIENCY_value boundary_quotient boundary_product
    MAX_AGENTS_PER_ZONE_def
  by simp

text \<open>The same circles added up in the opposite order.\<close>

lemma reversed_total:
  "totalAreaLoop (Num 0) (points (boundary_zone\<lparr>points := rev (points boundary_zone)\<rparr>))
     = Num (674651885226101 / 2 ^ 36)"
  by (simp only: boundary_zone_def zone.select_convs zone.update_convs circle.select_convs
      rev.simps append.simps totalAreaLoop.simps circleArea_50 circleArea_15 circleArea_20
      reversed_sum_1 reversed_sum_2 reversed_sum_3)

lemma reversed_capacity:
  "calculateMaxAgents (boundary_zone\<lparr>points := rev (points boundary_zone)\<rparr>) = 1"
  unfolding calculateMaxAgents_def calculateMaxAgentsValue_def Let_def reversed_total
    circleArea_50 PACKING_EFFICIENCY_value reversed_quotient reversed_product
    MAX_AGENTS_PER_ZONE_def
  by simp

text \<open>
  Claim C5 at the failing input. The total circle area of the zone is exactly the
  footprint of one agent divided by the packing efficiency, and the formula
  \<open>clamp(floor(totalCircleArea / perAgentFootprintArea * packingEfficiency), 0, 10)\<close> gives
  \<open>1\<close>; \<open>calculateMaxAgents\<close> returns \<open>0\<close>, because the quotient of the rounded areas
  times the double \<open>0.8\<close> is \<open>1 - 2 ^ -53\<close>. With the same circles in the opposite order
  it returns \<open>1\<close>.
\<close>

theorem calculateMaxAgents_boundary_zero:
  "residentialZones boundary_strokes = [boundary_zone] \<and>
   totalCircleArea boundary_zone = perAgentFootprintArea / (8 / 10) \<and>
   clamp \<lfloor>totalCircleArea boundary_zone / perAgentFootprintArea * (8 / 10)\<rfloor> 0 10 = 1 \<and>
   calculateMaxAgentsValue boundary_zone = Num 0 \<and>
   calculateMaxAgents boundary_zone = 0 \<and>
   calculateMaxAgents (boundary_zone\<lparr>points := rev (points boundary_zone)\<rparr>) = 1"
proof (intro conjI)
  show "residentialZones boundary_strokes = [boundary_zone]" by (rule boundary_painted)
  show "totalCircleArea boundary_zone = perAgentFootprintArea / (8 / 10)" by (rule boundary_area)
  have "totalCircleArea boundary_zone / perAgentFootprintArea * (8 / 10) = 1"
    by (simp add: boundary_area perAgentFootprintArea_def)
  then show "clamp \<lfloor>totalCircleArea boundary_zone / perAgentFootprintArea * (8 / 10)\<rfloor> 0 10 = 1"
    by (simp add: clamp_def)
  show "calculateMaxAgents boundary_zone = 0" by (rule boundary_capacity)
  with calculateMaxAgents_returned [of boundary_zone]
  show "calculateMaxAgentsValue boundary_zone = Num 0" by simp
  show "calculateMaxAgents (boundary_zone\<lparr>points := rev (points boundary_zone)\<rparr>) = 1"
    by (rule reversed_capacity)
qed

section \<open>Placement\<close>

text \<open>
  A thrown JavaScript exception. The only throws this model can reach are property
  reads on \<open>undefined\<close>.
\<close>

datatype error = TypeError

text \<open>
  \<open>Math.random\<close> is a tape \<open>rnd\<close> of numbers together with the position \<open>k\<close> of the next
  draw; results carry the position after their last draw.
\<close>

text \<open>
  The entries of the list \<open>existingAgents\<close>: agent objects, and in \<open>spawnAgentsForZone\<close>
  also the stubs \<open>{ finalPosition }\<close> of agents already queued in this pass. The position
  compared is \<open>finalPosition\<close>; the fallback to \<open>agent.x\<close> is for objects without one, which
  neither kind is.
\<close>

datatype 'l occupant = Live "'l agent" | Reserved pt

fun checkPosition :: "'l occupant \<Rightarrow> pt" where
  "checkPosition (Live a) = finalPosition a"
| "checkPosition (Reserved p) = p"

definition isPointInZone :: "pt \<Rightarrow> zone \<Rightarrow> bool" where
  "isPointInZone point z =
     list_ex (\<lambda>zonePoint. hypot (px point - cx zonePoint) (py point - cy zonePoint)
                            \<le> radius zonePoint) (points z)"

definition isFree :: "real \<Rightarrow> real \<Rightarrow> 'l occupant list \<Rightarrow> bool" where
  "isFree x y existingAgents =
     list_all (\<lambda>a. \<not> hypot (x - px (checkPosition a)) (y - py (checkPosition a))
                        < MIN_AGENT_DISTANCE) existingAgents"

text \<open>
  The attempts loop of \<open>findFreePositionInZone\<close>; the first argument counts the attempts
  left. \<open>zone.points[Math.floor(Math.random() * zone.points.length)]\<close> is \<open>undefined\<close> when
  the index is out of range, and reading its \<open>radius\<close> throws; by then the draw for the
  angle and the draw for the distance, the left operand of the product, have been made.
\<close>

fun findFreeLoop ::
  "nat \<Rightarrow> zone \<Rightarrow> 'l occupant list \<Rightarrow> (nat \<Rightarrow> real) \<Rightarrow> nat \<Rightarrow> (error + pt option) \<times> nat" where
  "findFreeLoop 0 z existingAgents rnd k = (Inr None, k)"
| "findFreeLoop (Suc n) z existingAgents rnd k =
     (let i = \<lfloor>rnd k * real (length (points z))\<rfloor>
      in if i < 0 \<or> int (length (points z)) \<le> i then (Inl TypeError, k + 3)
         else
           let randomPoint = points z ! nat i;
               angle = rnd (k + 1) * pi * 2;
               distance = rnd (k + 2) * (radius randomPoint - 55);
               x = cx randomPoint + cos angle * distance;
               y = cy randomPoint + sin angle * distance
           in if isFree x y existingAgents then (Inr (Some \<lparr>px = x, py = y\<rparr>), k + 3)
              else findFreeLoop n z existingAgents rnd (k + 3))"

definition findFreePositionInZone ::
  "zone \<Rightarrow> 'l occupant list \<Rightarrow> (nat \<Rightarrow> real) \<Rightarrow> nat \<Rightarrow> (error + pt option) \<times> nat" where
  "findFreePositionInZone z existingAgents rnd k =
     findFreeLoop MAX_PATHFINDING_ATTEMPTS z existingAgents rnd k"

text \<open>
  A residential zone as two strokes leave it: brush 10 at \<open>(1000, 1000)\<close>, then brush 60
  at \<open>(1070, 1000)\<close>, which is within the merge distance 72 of the first.
\<close>

definition mixed_zone :: zone where
  "mixed_zone = \<lparr>ztype = residential,
     points = [\<lparr>cx = 1000, cy = 1000, radius = 10\<rparr>, \<lparr>cx = 1070, cy = 1000, radius = 60\<rparr>]\<rparr>"

lemma mixed_total:
  "totalAreaLoop (Num 0) (points mixed_zone) = Num (1597575664215407 / 2 ^ 37)"
  by (simp only: mixed_zone_def zone.select_convs circle.select_convs totalAreaLoop.simps
      circleArea_10 circleArea_60 mixed_sum_1 mixed_sum_2)

lemma mixed_capacity: "calculateMaxAgents mixed_zone = 1"
  unfolding calculateMaxAgents_def calculateMaxAgentsValue_def Let_def mixed_total
    circleArea_50 PACKING_EFFICIENCY_value mixed_quotient mixed_product
    MAX_AGENTS_PER_ZONE_def
  by simp

text \<open>Draws \<open>0, 0, 0.9\<close>: the first circle, angle \<open>0\<close>, nine tenths of the distance range.\<close>

definition mixed_tape :: "nat \<Rightarrow> real" where
  "mixed_tape k = (if k = 2 then 9 / 10 else 0)"

lemma findFreeLoop_separated:
  "findFreeLoop n z ex rnd k = (Inr (Some p), k') \<Longrightarrow> isFree (px p) (py p) ex"
proof (induction n arbitrary: k)
  case 0
  then show ?case by simp
next
  case (Suc n)
  then show ?case
    by (auto simp: Let_def split: if_splits)
qed

lemma findFree_separated:
  assumes "findFreePositionInZone z ex rnd k = (Inr (Some p), k')" and "a \<in> set ex"
  shows "MIN_AGENT_DISTANCE \<le> hypot (px p - px (checkPosition a)) (py p - py (checkPosition a))"
proof -
  from assms(1) have "isFree (px p) (py p) ex"
    unfolding findFreePositionInZone_def by (rule findFreeLoop_separated)
  with assms(2) show ?thesis
    by (auto simp: isFree_def list_all_iff not_less)
qed

text \<open>
  Claim C7 at the failing input. The zone has capacity 1, so a spawning pass does call
  \<open>findFreePositionInZone\<close> for it; the draw lands 40.5 units from the centre of the
  circle of radius 10 and 110.5 units from the centre of the circle of radius 60, in
  neither circle of the zone.
\<close>

theorem findFreePositionInZone_outside_zone:
  "calculateMaxAgents mixed_zone = 1 \<and>
   findFreePositionInZone mixed_zone ([] :: unit occupant list) mixed_tape 0
     = (Inr (Some \<lparr>px = 1000 - 81 / 2, py = 1000\<rparr>), 3) \<and>
   \<not> isPointInZone \<lparr>px = 1000 - 81 / 2, py = 1000\<rparr> mixed_zone"
proof (intro conjI)
  show "calculateMaxAgents mixed_zone = 1" by (rule mixed_capacity)
  have att: "MAX_PATHFINDING_ATTEMPTS = Suc 99" by (simp add: MAX_PATHFINDING_ATTEMPTS_def)
  show "findFreePositionInZone mixed_zone ([] :: unit occupant list) mixed_tape 0
     = (Inr (Some \<lparr>px = 1000 - 81 / 2, py = 1000\<rparr>), 3)"
    unfolding findFreePositionInZone_def att findFreeLoop.simps
    by (simp add: mixed_zone_def mixed_tape_def isFree_def Let_def)
  show "\<not> isPointInZone \<lparr>px = 1000 - 81 / 2, py = 1000\<rparr> mixed_zone"
    by (simp add: isPointInZone_def mixed_zone_def hypot_zero_right)
qed

section \<open>Grid search\<close>

definition PATHFINDING_STEP_SIZE :: real where "PATHFINDING_STEP_SIZE = 25"

definition isOnRoad :: "zone list \<Rightarrow> real \<Rightarrow> real \<Rightarrow> bool" where
  "isOnRoad rzs x y =
     list_ex (\<lambda>z. list_ex (\<lambda>p. hypot (x - cx p) (y - cy p) \<le> radius p) (points z)) rzs"

text \<open>The key under which a point is recorded as visited: its grid cell.\<close>

definition cellKey :: "pt \<Rightarrow> int \<times> int" where
  "cellKey p = (\<lfloor>px p / PATHFINDING_STEP_SIZE\<rfloor>, \<lfloor>py p / PATHFINDING_STEP_SIZE\<rfloor>)"

definition gridNeighbors :: "pt \<Rightarrow> pt list" where
  "gridNeighbors p =
     [\<lparr>px = px p + PATHFINDING_STEP_SIZE, py = py p\<rparr>,
      \<lparr>px = px p - PATHFINDING_STEP_SIZE, py = py p\<rparr>,
      \<lparr>px = px p, py = py p + PATHFINDING_STEP_SIZE\<rparr>,
      \<lparr>px = px p, py = py p - PATHFINDING_STEP_SIZE\<rparr>]"

text \<open>
  The three tests a neighbour passes before it is queued: inside the world, its cell
  not visited, and on a road or in the target zone.
\<close>

definition admissible ::
  "real \<Rightarrow> real \<Rightarrow> zone list \<Rightarrow> zone \<Rightarrow> (int \<times> int) set \<Rightarrow> pt \<Rightarrow> bool" where
  "admissible W H rzs targetZone visited n =
     (\<not> (px n < 0 \<or> px n > W \<or> py n < 0 \<or> py n > H) \<and>
      cellKey n \<notin> visited \<and>
      (isOnRoad rzs (px n) (py n) \<or> isPointInZone n targetZone))"

text \<open>The cells of the world, a finite set that bounds both searches.\<close>

definition worldCells :: "real \<Rightarrow> real \<Rightarrow> (int \<times> int) set" where
  "worldCells W H = {0 .. \<lfloor>W / PATHFINDING_STEP_SIZE\<rfloor>} \<times> {0 .. \<lfloor>H / PATHFINDING_STEP_SIZE\<rfloor>}"

lemma finite_worldCells: "finite (worldCells W H)"
  by (simp add: worldCells_def)

lemma admissible_cell: "admissible W H rzs tz visited n \<Longrightarrow> cellKey n \<in> worldCells W H"
proof -
  assume a: "admissible W H rzs tz visited n"
  then have b: "0 \<le> px n" "px n \<le> W" "0 \<le> py n" "py n \<le> H"
    by (auto simp: admissible_def)
  have "0 \<le> \<lfloor>px n / 25\<rfloor>" "0 \<le> \<lfloor>py n / 25\<rfloor>" using b by simp_all
  moreover have "\<lfloor>px n / 25\<rfloor> \<le> \<lfloor>W / 25\<rfloor>" "\<lfloor>py n / 25\<rfloor> \<le> \<lfloor>H / 25\<rfloor>"
    using b by (simp_all add: floor_mono)
  ultimately show ?thesis
    by (simp add: worldCells_def cellKey_def PATHFINDING_STEP_SIZE_def)
qed

text \<open>
  The measure of a breadth-first loop: the cells that can still be visited. A pop of a
  fresh cell shrinks it; a pop of a visited cell leaves it and shortens the queue.
\<close>

lemma search_card_less:
  assumes "finite G" and "f ` set new \<subseteq> G" and "f c \<notin> V"
  shows "card ((G \<union> f ` set (rest @ new)) - insert (f c) V) < card ((G \<union> f ` set (c # rest)) - V)"
proof (rule psubset_card_mono)
  show "finite ((G \<union> f ` set (c # rest)) - V)" using assms(1) by simp
  have "f c \<in> (G \<union> f ` set (c # rest)) - V" using assms(3) by simp
  moreover have "(G \<union> f ` set (rest @ new)) - insert (f c) V \<subseteq> (G \<union> f ` set (c # rest)) - V"
    using assms(2) by auto
  ultimately show "(G \<union> f ` set (rest @ new)) - insert (f c) V \<subset> (G \<union> f ` set (c # rest)) - V"
    by blast
qed

lemma search_card_le:
  assumes "finite G"
  shows "card ((G \<union> f ` set rest) - V) \<le> card ((G \<union> f ` set (c # rest)) - V)"
  by (rule card_mono) (use assms in auto)

function pathExistsLoop ::
  "real \<Rightarrow> real \<Rightarrow> zone list \<Rightarrow> zone \<Rightarrow> (int \<times> int) set \<Rightarrow> pt list \<Rightarrow> bool" where
  "pathExistsLoop W H rzs targetZone visited [] = False"
| "pathExistsLoop W H rzs targetZone visited (current # queue) =
     (if cellKey current \<in> visited then pathExistsLoop W H rzs targetZone visited queue
      else if isPointInZone current targetZone then True
      else pathExistsLoop W H rzs targetZone (insert (cellKey current) visited)
             (queue @ filter (admissible W H rzs targetZone (insert (cellKey current) visited))
                        (gridNeighbors current)))"
  by pat_completeness auto
termination
proof (relation "measures
    [\<lambda>(W, H, rzs, tz, visited, queue). card ((worldCells W H \<union> cellKey ` set queue) - visited),
     \<lambda>(W, H, rzs, tz, visited, queue). length queue]", goal_cases)
  case 1
  show ?case by simp
next
  case (2 W H rzs tz visited current queue)
  from search_card_le [OF finite_worldCells, of W H cellKey queue visited current]
  show ?case by auto
next
  case (3 W H rzs tz visited current queue)
  have "cellKey ` set (filter (admissible W H rzs tz (insert (cellKey current) visited))
                        (gridNeighbors current)) \<subseteq> worldCells W H"
    using admissible_cell by auto
  from search_card_less [OF finite_worldCells this 3(1), of queue]
  show ?case by simp
qed

definition pathExistsToZone :: "'l game \<Rightarrow> pt \<Rightarrow> zone \<Rightarrow> bool" where
  "pathExistsToZone g startPoint targetZone =
     pathExistsLoop (worldWidth g) (worldHeight g) (roadZones g) targetZone {} [startPoint]"

text \<open>
  \<open>findPathToZone\<close> runs the same search with the path so far kept beside each queued
  point. The loop gives \<open>None\<close> when the queue runs empty; the function then returns
  \<open>[startPoint]\<close>.
\<close>

function findPathLoop ::
  "real \<Rightarrow> real \<Rightarrow> zone list \<Rightarrow> zone \<Rightarrow> (int \<times> int) set \<Rightarrow> (pt \<times> pt list) list
     \<Rightarrow> pt list option" where
  "findPathLoop W H rzs targetZone visited [] = None"
| "findPathLoop W H rzs targetZone visited (current # queue) =
     (if cellKey (fst current) \<in> visited then findPathLoop W H rzs targetZone visited queue
      else if isPointInZone (fst current) targetZone then Some (snd current @ [fst current])
      else findPathLoop W H rzs targetZone (insert (cellKey (fst current)) visited)
             (queue @ map (\<lambda>neighbor. (neighbor, snd current @ [neighbor]))
                        (filter (admissible W H rzs targetZone
                                   (insert (cellKey (fst current)) visited))
                           (gridNeighbors (fst current)))))"
  by pat_completeness auto
termination
proof (relation "measures
    [\<lambda>(W, H, rzs, tz, visited, queue).
        card ((worldCells W H \<union> (cellKey \<circ> fst) ` set queue) - visited),
     \<lambda>(W, H, rzs, tz, visited, queue). length queue]", goal_cases)
  case 1
  show ?case by simp
next
  case (2 W H rzs tz visited current queue)
  from search_card_le [OF finite_worldCells, of W H "cellKey \<circ> fst" queue visited current]
  show ?case by auto
next
  case (3 W H rzs tz visited current queue)
  have "(cellKey \<circ> fst) ` set (map (\<lambda>neighbor. (neighbor, snd current @ [neighbor]))
            (filter (admissible W H rzs tz (insert (cellKey (fst current)) visited))
               (gridNeighbors (fst current)))) \<subseteq> worldCells W H"
    using admissible_cell by auto
  from search_card_less [OF finite_worldCells this, of current visited queue] 3(1)
  show ?case by simp
qed

definition findPathToZone :: "'l game \<Rightarrow> pt \<Rightarrow> zone \<Rightarrow> pt list" where
  "findPathToZone g startPoint targetZone =
     (case findPathLoop (worldWidth g) (worldHeight g) (roadZones g) targetZone {}
             [(startPoint, [startPoint])] of
        Some path \<Rightarrow> path
      | None \<Rightarrow> [startPoint])"

lemma findPathLoop_nonempty:
  "findPathLoop W H rzs tz visited queue = Some path \<Longrightarrow> path \<noteq> []"
  by (induction W H rzs tz visited queue rule: findPathLoop.induct)
     (auto split: if_splits)

lemma findPathToZone_nonempty: "findPathToZone g startPoint tz \<noteq> []"
  by (auto simp: findPathToZone_def dest: findPathLoop_nonempty split: option.splits)

text \<open>
  Claim C10 (amended). With a positive speed, an agent in phase \<open>traveling_to_area\<close> or
  \<open>settling\<close> that is at least one speed-step from its \<open>finalPosition\<close> moves straight
  toward it by exactly its speed, with no road or zone test, so the distance drops by
  exactly the speed. Closer than one step, a \<open>traveling_to_area\<close> agent does not move in
  that tick and only switches to \<open>settling\<close>; a \<open>settling\<close> agent snaps to the position
  and becomes \<open>settled\<close>. Every agent that stays in the list reaches \<open>settled\<close> after
  finitely many ticks, whatever its path; and \<open>findPathToZone\<close> never returns an empty
  path: when the grid search fails it returns \<open>[startPoint]\<close>.
\<close>

theorem agent_reaches_settled:
  assumes s: "0 < speed a"
  shows "((agent_phase a = traveling_to_area \<or> agent_phase a = settling) \<and>
          speed a \<le> dist_to_final a \<longrightarrow>
            dist_to_final (updateAgent lot a) = dist_to_final a - speed a \<and>
            agent_phase (updateAgent lot a) = agent_phase a \<and>
            agent_x (updateAgent lot a)
              = agent_x a + (px (finalPosition a) - agent_x a) / dist_to_final a * speed a \<and>
            agent_y (updateAgent lot a)
              = agent_y a + (py (finalPosition a) - agent_y a) / dist_to_final a * speed a)
       \<and> (agent_phase a = traveling_to_area \<and> dist_to_final a < speed a \<longrightarrow>
            updateAgent lot a = a\<lparr>agent_phase := settling\<rparr>)
       \<and> (agent_phase a = settling \<and> dist_to_final a < speed a \<longrightarrow>
            agent_phase (updateAgent lot a) = settled \<and>
            agent_x (updateAgent lot a) = px (finalPosition a) \<and>
            agent_y (updateAgent lot a) = py (finalPosition a))
       \<and> (\<forall>ags i. i < length ags \<and> ags ! i = a \<longrightarrow>
            (\<exists>n. agent_phase (ticks gen n ags ! i) = settled))
       \<and> findPathToZone g startPoint targetZone \<noteq> []
       \<and> (findPathLoop (worldWidth g) (worldHeight g) (roadZones g) targetZone {}
             [(startPoint, [startPoint])] = None \<longrightarrow>
            findPathToZone g startPoint targetZone = [startPoint])"
proof (intro conjI impI allI)
  assume h: "(agent_phase a = traveling_to_area \<or> agent_phase a = settling) \<and>
          speed a \<le> dist_to_final a"
  then have ph: "agent_phase a = traveling_to_area \<or> agent_phase a = settling"
    and le: "speed a \<le> dist_to_final a" by simp_all
  show "dist_to_final (updateAgent lot a) = dist_to_final a - speed a"
    by (rule step_far(1) [OF ph s le])
  show "agent_phase (updateAgent lot a) = agent_phase a"
    by (rule step_far(2) [OF ph s le])
  show "agent_x (updateAgent lot a)
          = agent_x a + (px (finalPosition a) - agent_x a) / dist_to_final a * speed a"
    by (rule step_far(3) [OF ph s le])
  show "agent_y (updateAgent lot a)
          = agent_y a + (py (finalPosition a) - agent_y a) / dist_to_final a * speed a"
    by (rule step_far(4) [OF ph s le])
next
  assume "agent_phase a = traveling_to_area \<and> dist_to_final a < speed a"
  then show "updateAgent lot a = a\<lparr>agent_phase := settling\<rparr>"
    using step_near_area by blast
next
  assume h: "agent_phase a = settling \<and> dist_to_final a < speed a"
  then show "agent_phase (updateAgent lot a) = settled"
    using step_near_settling(1) by blast
  from h show "agent_x (updateAgent lot a) = px (finalPosition a)"
    using step_near_settling(2) by blast
  from h show "agent_y (updateAgent lot a) = py (finalPosition a)"
    using step_near_settling(3) by blast
next
  fix ags :: "'a agent list" and i
  assume "i < length ags \<and> ags ! i = a"
  then show "\<exists>n. agent_phase (ticks gen n ags ! i) = settled"
    using ticks_reaches_settled [of i ags gen] s by blast
next
  show "findPathToZone g startPoint targetZone \<noteq> []"
    by (rule findPathToZone_nonempty)
next
  assume "findPathLoop (worldWidth g) (worldHeight g) (roadZones g) targetZone {}
             [(startPoint, [startPoint])] = None"
  then show "findPathToZone g startPoint targetZone = [startPoint]"
    by (simp add: findPathToZone_def)
qed

text \<open>
  An agent 10 units from its settle position, already heading for it; and a world
  without roads, where no grid search can leave its start cell.
\<close>

definition far_agent :: "unit agent" where
  "far_agent = agent_example\<lparr>finalPosition := \<lparr>px = 10, py = 0\<rparr>,
                              agent_phase := traveling_to_area\<rparr>"

lemma no_road_search:
  "findPathLoop (worldWidth (world_example None)) (worldHeight (world_example None))
     (roadZones (world_example None)) mixed_zone {}
     [(\<lparr>px = 0, py = 0\<rparr>, [\<lparr>px = 0, py = 0\<rparr>])] = None"
  by (simp add: world_example_def mixed_zone_def isPointInZone_def admissible_def isOnRoad_def
      gridNeighbors_def PATHFINDING_STEP_SIZE_def hypot_le_iff)

theorem agent_reaches_settled_witness:
  "0 < speed far_agent \<and> agent_phase far_agent = traveling_to_area \<and>
   dist_to_final far_agent = 10 \<and>
   dist_to_final (updateAgent (\<lambda>_. ()) far_agent) = 8 \<and>
   agent_x (updateAgent (\<lambda>_. ()) far_agent) = 2 \<and>
   (\<exists>n. agent_phase (ticks (\<lambda>_ _. ()) n [far_agent] ! 0) = settled) \<and>
   findPathToZone (world_example None) \<lparr>px = 0, py = 0\<rparr> mixed_zone = [\<lparr>px = 0, py = 0\<rparr>]"
proof -
  have s: "0 < speed far_agent" by (simp add: far_agent_def agent_example_def)
  have p: "agent_phase far_agent = traveling_to_area" by (simp add: far_agent_def)
  have d: "dist_to_final far_agent = 10"
    by (simp add: far_agent_def agent_example_def dist_to_final_def hypot_zero_right)
  have v: "speed far_agent = 2" "agent_x far_agent = 0" "px (finalPosition far_agent) = 10"
    by (simp_all add: far_agent_def agent_example_def)
  have l: "(0::nat) < length [far_agent] \<and> [far_agent] ! 0 = far_agent" by simp
  from agent_reaches_settled [OF s, of "\<lambda>_. ()" "\<lambda>_ _. ()" "world_example None"
      "\<lparr>px = 0, py = 0\<rparr>" mixed_zone] p d v l no_road_search
  show ?thesis using s by simp
qed

text \<open>
  The tick in which a \<open>traveling_to_area\<close> agent is closer than one step: the agent
  one unit from its settle position keeps its position and its distance, and is not
  snapped, which happens one tick later in phase \<open>settling\<close>.
\<close>

theorem agent_arrival_tick_counterexample:
  "agent_phase (agent_example\<lparr>agent_phase := traveling_to_area\<rparr>) = traveling_to_area \<and>
   speed (agent_example\<lparr>agent_phase := traveling_to_area\<rparr>) = 2 \<and>
   dist_to_final (agent_example\<lparr>agent_phase := traveling_to_area\<rparr>) = 1 \<and>
   dist_to_final (updateAgent (\<lambda>_. ()) (agent_example\<lparr>agent_phase := traveling_to_area\<rparr>)) = 1 \<and>
   agent_x (updateAgent (\<lambda>_. ()) (agent_example\<lparr>agent_phase := traveling_to_area\<rparr>)) = 0 \<and>
   px (finalPosition (updateAgent (\<lambda>_. ()) (agent_example\<lparr>agent_phase := traveling_to_area\<rparr>))) = 1"
  by (simp add: agent_example_def updateAgent_def updateAgentTravelingToArea_def
      dist_to_final_def hypot_zero_right Let_def)

section \<open>Road network builder\<close>

definition MIN_POINT_DISTANCE :: real where "MIN_POINT_DISTANCE = 20"
definition CONNECTION_RADIUS :: real where "CONNECTION_RADIUS = 60"
definition EDGE_THRESHOLD :: real where "EDGE_THRESHOLD = 30"

text \<open>
  The state of a rebuild: the network and the local counter \<open>pointIdCounter\<close> of
  \<open>buildRoadNetwork\<close>. Steps that can throw return the exception, if any, beside the
  network as it stood at the throw.
\<close>

type_synonym build = "roadNetwork \<times> nat"

text \<open>
  \<open>addWaypoint\<close>. The object \<open>metadata\<close> is a waypoint whose id and coordinates are
  overwritten; the returned id is ignored by every caller.
\<close>

definition addWaypoint :: "real \<Rightarrow> real \<Rightarrow> waypoint \<Rightarrow> build \<Rightarrow> nat \<times> build" where
  "addWaypoint x0 y0 metadata st =
     (let x = js_round x0; y = js_round y0
      in case find (\<lambda>existingPoint. hypot (x - wx existingPoint) (y - wy existingPoint)
                                       < MIN_POINT_DISTANCE) (rn_points (fst st)) of
           Some existingPoint \<Rightarrow> (wid existingPoint, st)
         | None \<Rightarrow>
             (snd st,
              ((fst st)\<lparr>rn_points := rn_points (fst st) @ [metadata\<lparr>wid := snd st, wx := x, wy := y\<rparr>],
                        connections := connections (fst st) @ [[]]\<rparr>,
               snd st + 1)))"

definition noMetadata :: waypoint where
  "noMetadata = \<lparr>wid = 0, wx = 0, wy = 0, roadRadius = None, segmentIndex = None,
     isRoadCenter = False, isIntermediate = False, isIntersection = False, isApproach = False,
     parentIntersection = None\<rparr>"

text \<open>
  \<open>traceRoadSegment\<close>: the circles reachable from \<open>startIndex\<close> through hops of at most
  \<open>CONNECTION_RADIUS\<close>, in the order the queue yields them; \<open>processedPoints\<close> is shared
  between the calls and returned.
\<close>

function traceLoop ::
  "circle list \<Rightarrow> nat set \<Rightarrow> circle list \<Rightarrow> nat list \<Rightarrow> circle list \<times> nat set" where
  "traceLoop roadPoints processedPoints segment [] = (segment, processedPoints)"
| "traceLoop roadPoints processedPoints segment (currentIndex # queue) =
     (if currentIndex \<in> processedPoints then traceLoop roadPoints processedPoints segment queue
      else traceLoop roadPoints (insert currentIndex processedPoints)
             (segment @ [roadPoints ! currentIndex])
             (queue @ filter (\<lambda>i. i \<notin> insert currentIndex processedPoints \<and>
                                 hypot (cx (roadPoints ! currentIndex) - cx (roadPoints ! i))
                                       (cy (roadPoints ! currentIndex) - cy (roadPoints ! i))
                                   \<le> CONNECTION_RADIUS)
                        [0 ..< length roadPoints]))"
  by pat_completeness auto
termination
proof (relation "measures
    [\<lambda>(roadPoints, processed, segment, queue).
        card (({..< length roadPoints} \<union> id ` set queue) - processed),
     \<lambda>(roadPoints, processed, segment, queue). length queue]", goal_cases)
  case 1
  show ?case by simp
next
  case (2 roadPoints processed segment currentIndex queue)
  have "finite {..< length roadPoints}" by simp
  from search_card_le [OF this, of id queue processed currentIndex]
  show ?case by auto
next
  case (3 roadPoints processed segment currentIndex queue)
  let ?new = "filter (\<lambda>i. i \<notin> insert currentIndex processed \<and>
                 hypot (cx (roadPoints ! currentIndex) - cx (roadPoints ! i))
                       (cy (roadPoints ! currentIndex) - cy (roadPoints ! i)) \<le> CONNECTION_RADIUS)
               [0 ..< length roadPoints]"
  have f: "finite {..< length roadPoints}" by simp
  have "id ` set ?new \<subseteq> {..< length roadPoints}" by auto
  from search_card_less [OF f this, of currentIndex processed queue] 3
  show ?case by simp
qed

definition traceRoadSegment :: "circle list \<Rightarrow> nat \<Rightarrow> nat set \<Rightarrow> circle list \<times> nat set" where
  "traceRoadSegment roadPoints startIndex processedPoints =
     traceLoop roadPoints processedPoints [] [startIndex]"

text \<open>
  The scan for the closest remaining circle in \<open>sortPointsForFlow\<close>. \<open>closestDistance\<close>
  starts at \<open>Infinity\<close>, here \<open>None\<close>.
\<close>

fun closestLoop :: "circle \<Rightarrow> circle list \<Rightarrow> nat \<Rightarrow> nat \<Rightarrow> real option \<Rightarrow> nat" where
  "closestLoop lastPoint [] i closestIndex closestDistance = closestIndex"
| "closestLoop lastPoint (r # remaining) i closestIndex closestDistance =
     (let distance = hypot (cx lastPoint - cx r) (cy lastPoint - cy r)
      in if (case closestDistance of None \<Rightarrow> True | Some c \<Rightarrow> distance < c)
         then closestLoop lastPoint remaining (i + 1) i (Some distance)
         else closestLoop lastPoint remaining (i + 1) closestIndex closestDistance)"

lemma closestLoop_range:
  "closestLoop lastPoint remaining i ci cd = ci \<or>
   (i \<le> closestLoop lastPoint remaining i ci cd \<and>
    closestLoop lastPoint remaining i ci cd < i + length remaining)"
proof (induction remaining arbitrary: i ci cd)
  case Nil
  then show ?case by simp
next
  case (Cons r remaining)
  show ?case
  proof (cases "case cd of None \<Rightarrow> True
                | Some c \<Rightarrow> hypot (cx lastPoint - cx r) (cy lastPoint - cy r) < c")
    case True
    with Cons.IH [of "i + 1" i "Some (hypot (cx lastPoint - cx r) (cy lastPoint - cy r))"]
    show ?thesis by (auto simp: Let_def)
  next
    case False
    with Cons.IH [of "i + 1" ci cd] show ?thesis by (auto simp: Let_def)
  qed
qed

lemma closestLoop_less:
  "remaining \<noteq> [] \<Longrightarrow> closestLoop lastPoint remaining 0 0 None < length remaining"
  using closestLoop_range [of lastPoint remaining 0 0 None] by auto

function sortLoop :: "circle list \<Rightarrow> circle list \<Rightarrow> circle list" where
  "sortLoop sortedPts remaining =
     (if remaining = [] then sortedPts
      else let closestIndex = closestLoop (last sortedPts) remaining 0 0 None
           in sortLoop (sortedPts @ [remaining ! closestIndex])
                (take closestIndex remaining @ drop (Suc closestIndex) remaining))"
  by pat_completeness auto
termination
proof (relation "measure (\<lambda>(sortedPts, remaining). length remaining)", goal_cases)
  case 1
  show ?case by simp
next
  case (2 sortedPts remaining closestIndex)
  then have "closestIndex < length remaining" using closestLoop_less by simp
  then show ?case by simp
qed

declare sortLoop.simps [simp del]

definition sortPointsForFlow :: "circle list \<Rightarrow> circle list" where
  "sortPointsForFlow ps =
     (if length ps \<le> 1 then ps else sortLoop [hd ps] (tl ps))"

text \<open>The interpolated waypoints between two consecutive circles more than 50 apart.\<close>

definition addIntermediate ::
  "zone list \<Rightarrow> circle \<Rightarrow> circle \<Rightarrow> nat \<Rightarrow> nat \<Rightarrow> nat \<Rightarrow> build \<Rightarrow> build" where
  "addIntermediate rzs p nextPoint i steps step st =
     (let t = real step / real steps;
          interpX = cx p + (cx nextPoint - cx p) * t;
          interpY = cy p + (cy nextPoint - cy p) * t
      in if isOnRoad rzs interpX interpY
         then snd (addWaypoint interpX interpY
                     (noMetadata\<lparr>roadRadius := Some (min (radius p) (radius nextPoint)),
                                  segmentIndex := Some (real i + t),
                                  isIntermediate := True\<rparr>) st)
         else st)"

fun waypointsLoop :: "zone list \<Rightarrow> nat \<Rightarrow> circle list \<Rightarrow> build \<Rightarrow> build" where
  "waypointsLoop rzs i [] st = st"
| "waypointsLoop rzs i (p # rest) st =
     (let st1 = snd (addWaypoint (cx p) (cy p)
                       (noMetadata\<lparr>roadRadius := Some (radius p),
                                    segmentIndex := Some (real i),
                                    isRoadCenter := True\<rparr>) st)
      in case rest of
           [] \<Rightarrow> st1
         | nextPoint # _ \<Rightarrow>
             let distance = hypot (cx nextPoint - cx p) (cy nextPoint - cy p);
                 st2 = (if distance > 50
                        then let steps = nat \<lceil>distance / 30\<rceil>
                             in fold (addIntermediate rzs p nextPoint i steps) [1 ..< steps] st1
                        else st1)
             in waypointsLoop rzs (i + 1) rest st2)"

definition createWaypointsForSegment :: "zone list \<Rightarrow> circle list \<Rightarrow> build \<Rightarrow> build" where
  "createWaypointsForSegment rzs segment st =
     (if segment = [] then st else waypointsLoop rzs 0 (sortPointsForFlow segment) st)"

text \<open>The grouping loop of \<open>extractRoadCenterline\<close> over the circle indices.\<close>

fun segmentsLoop :: "circle list \<Rightarrow> nat list \<Rightarrow> nat set \<Rightarrow> circle list list \<Rightarrow> circle list list" where
  "segmentsLoop roadPoints [] processedPoints roadSegments = roadSegments"
| "segmentsLoop roadPoints (i # is) processedPoints roadSegments =
     (if i \<in> processedPoints then segmentsLoop roadPoints is processedPoints roadSegments
      else let traced = traceRoadSegment roadPoints i processedPoints
           in segmentsLoop roadPoints is (snd traced)
                (if fst traced \<noteq> [] then roadSegments @ [fst traced] else roadSegments))"

definition extractRoadCenterline :: "zone list \<Rightarrow> zone \<Rightarrow> build \<Rightarrow> build" where
  "extractRoadCenterline rzs z st =
     (if points z = [] then st
      else fold (createWaypointsForSegment rzs)
             (segmentsLoop (points z) [0 ..< length (points z)] {} []) st)"

text \<open>Running a step that may throw over a list, stopping at the first exception.\<close>

fun forEach :: "('a \<Rightarrow> 's \<Rightarrow> error option \<times> 's) \<Rightarrow> 'a list \<Rightarrow> 's \<Rightarrow> error option \<times> 's" where
  "forEach f [] s = (None, s)"
| "forEach f (a # as) s =
     (case f a s of (None, s') \<Rightarrow> forEach f as s' | (Some e, s') \<Rightarrow> (Some e, s'))"

definition hasRoadPathBetween :: "zone list \<Rightarrow> waypoint \<Rightarrow> waypoint \<Rightarrow> bool" where
  "hasRoadPathBetween rzs pointA pointB =
     list_all (\<lambda>i. let t = real i / 10;
                       x = wx pointA + (wx pointB - wx pointA) * t;
                       y = wy pointA + (wy pointB - wy pointA) * t
                   in isOnRoad rzs x y) [0 ..< 11]"

text \<open>
  The body of the inner loop of \<open>connectNearbyWaypoints\<close> for one pair \<open>i < j\<close>. Reading
  \<open>connections[i]\<close> or \<open>connections[j]\<close> where there is none throws.
\<close>

definition connectPair :: "zone list \<Rightarrow> nat \<times> nat \<Rightarrow> roadNetwork \<Rightarrow> error option \<times> roadNetwork" where
  "connectPair rzs ij net =
     (let i = fst ij; j = snd ij;
          pointA = rn_points net ! i; pointB = rn_points net ! j;
          distance = hypot (wx pointA - wx pointB) (wy pointA - wy pointB)
      in if distance \<le> CONNECTION_RADIUS
         then (if hasRoadPathBetween rzs pointA pointB
               then (if \<not> i < length (connections net) then (Some TypeError, net)
                     else if j \<notin> set (connections net ! i)
                     then (let net1 = net\<lparr>connections :=
                                           (connections net)[i := connections net ! i @ [j]]\<rparr>
                           in if \<not> j < length (connections net1) then (Some TypeError, net1)
                              else (None, net1\<lparr>connections :=
                                      (connections net1)[j := connections net1 ! j @ [i]]\<rparr>))
                     else (None, net))
               else (None, net))
         else (None, net))"

definition waypointPairs :: "nat \<Rightarrow> (nat \<times> nat) list" where
  "waypointPairs n = concat (map (\<lambda>i. map (Pair i) [i + 1 ..< n]) [0 ..< n])"

text \<open>
  The places an approach waypoint can be put: integer points around the road circles.
  The set is finite, and every approach waypoint takes a place not yet taken.
\<close>

definition wpos :: "waypoint \<Rightarrow> real \<times> real" where
  "wpos w = (wx w, wy w)"

definition approachSites :: "zone list \<Rightarrow> (real \<times> real) set" where
  "approachSites rzs =
     (\<Union>z \<in> set rzs. \<Union>c \<in> set (points z).
        (\<lambda>ab. (real_of_int (fst ab), real_of_int (snd ab))) `
          ({\<lfloor>cx c - radius c\<rfloor> .. \<lceil>cx c + radius c\<rceil> + 1} \<times>
           {\<lfloor>cy c - radius c\<rfloor> .. \<lceil>cy c + radius c\<rceil> + 1}))"

lemma finite_approachSites: "finite (approachSites rzs)"
  by (simp add: approachSites_def)

lemma abs_le_hypot: "\<bar>a\<bar> \<le> hypot a b" "\<bar>b\<bar> \<le> hypot a b"
proof -
  have "\<bar>a\<bar> = sqrt (a * a)" "\<bar>b\<bar> = sqrt (b * b)" by simp_all
  then show "\<bar>a\<bar> \<le> hypot a b" "\<bar>b\<bar> \<le> hypot a b"
    unfolding hypot_def by (simp_all only: real_sqrt_le_iff) simp_all
qed

lemma js_round_near: "\<bar>v - js_round v\<bar> \<le> 1 / 2"
  unfolding js_round_def by linarith

lemma js_round_site:
  fixes a c r :: real
  assumes "\<bar>a - c\<bar> \<le> r"
  shows "\<lfloor>a + 1 / 2\<rfloor> \<in> {\<lfloor>c - r\<rfloor> .. \<lceil>c + r\<rceil> + 1}"
proof -
  have "c - r \<le> a + 1 / 2" using assms by linarith
  then have lo: "\<lfloor>c - r\<rfloor> \<le> \<lfloor>a + 1 / 2\<rfloor>" by (rule floor_mono)
  have "a + 1 / 2 \<le> real_of_int (\<lceil>c + r\<rceil> + 1)" using assms by linarith
  then have "\<lfloor>a + 1 / 2\<rfloor> \<le> \<lceil>c + r\<rceil> + 1" by (simp add: floor_le_iff)
  with lo show ?thesis by simp
qed

lemma approach_site:
  assumes "isOnRoad rzs ax ay"
  shows "(js_round ax, js_round ay) \<in> approachSites rzs"
proof -
  from assms obtain z c where z: "z \<in> set rzs" and c: "c \<in> set (points z)"
    and h: "hypot (ax - cx c) (ay - cy c) \<le> radius c"
    by (auto simp: isOnRoad_def list_ex_iff)
  have "\<bar>ax - cx c\<bar> \<le> radius c"
    using abs_le_hypot(1) [of "ax - cx c" "ay - cy c"] h by linarith
  moreover have "\<bar>ay - cy c\<bar> \<le> radius c"
    using abs_le_hypot(2) [of "ay - cy c" "ax - cx c"] h by linarith
  ultimately
  have "(\<lfloor>ax + 1 / 2\<rfloor>, \<lfloor>ay + 1 / 2\<rfloor>)
        \<in> {\<lfloor>cx c - radius c\<rfloor> .. \<lceil>cx c + radius c\<rceil> + 1} \<times>
           {\<lfloor>cy c - radius c\<rfloor> .. \<lceil>cy c + radius c\<rceil> + 1}"
    using js_round_site by blast
  then have "(js_round ax, js_round ay)
        \<in> (\<lambda>ab. (real_of_int (fst ab), real_of_int (snd ab))) `
          ({\<lfloor>cx c - radius c\<rfloor> .. \<lceil>cx c + radius c\<rceil> + 1} \<times>
           {\<lfloor>cy c - radius c\<rfloor> .. \<lceil>cy c + radius c\<rceil> + 1})"
    unfolding js_round_def by (rule rev_image_eqI) simp
  with z c show ?thesis unfolding approachSites_def by blast
qed

lemma approach_fresh:
  assumes "\<not> list_ex (\<lambda>e. hypot (ax - wx e) (ay - wy e) < 15) pts"
  shows "(js_round ax, js_round ay) \<notin> wpos ` set pts"
proof
  assume "(js_round ax, js_round ay) \<in> wpos ` set pts"
  then obtain e where e: "e \<in> set pts" and eq: "wx e = js_round ax" "wy e = js_round ay"
    by (auto simp: wpos_def)
  have a: "\<bar>ax - js_round ax\<bar> \<le> 1 / 2" and b: "\<bar>ay - js_round ay\<bar> \<le> 1 / 2"
    by (rule js_round_near)+
  have "(ax - js_round ax) * (ax - js_round ax) \<le> (1 / 2) * (1 / 2)"
    using a by (intro abs_le_square_iff [THEN iffD1, unfolded power2_eq_square]) simp
  moreover have "(ay - js_round ay) * (ay - js_round ay) \<le> (1 / 2) * (1 / 2)"
    using b by (intro abs_le_square_iff [THEN iffD1, unfolded power2_eq_square]) simp
  ultimately have "hypot (ax - wx e) (ay - wy e) < 15"
    by (simp add: hypot_less_iff eq)
  with assms e show False by (auto simp: list_ex_iff)
qed

lemma approach_card_less:
  assumes "isOnRoad rzs ax ay"
    and "\<not> list_ex (\<lambda>e. hypot (ax - wx e) (ay - wy e) < 15) pts"
    and "wpos w = (js_round ax, js_round ay)"
  shows "card (approachSites rzs - wpos ` set (pts @ [w]))
           < card (approachSites rzs - wpos ` set pts)"
proof (rule psubset_card_mono)
  show "finite (approachSites rzs - wpos ` set pts)"
    using finite_approachSites by simp
  have "wpos w \<in> approachSites rzs - wpos ` set pts"
    using approach_site [OF assms(1)] approach_fresh [OF assms(2)] assms(3) by simp
  then show "approachSites rzs - wpos ` set (pts @ [w]) \<subset> approachSites rzs - wpos ` set pts"
    by auto
qed

text \<open>
  The pieces of the loop body of \<open>enhanceIntersection\<close> for one connected waypoint:
  the candidate position 25 units from the intersection toward it, the test that it is
  wanted (the neighbour is more than 50 away, the candidate is on a road and no
  waypoint is closer than 15 to it), and the two updates that add it.
\<close>

definition approachPosition :: "waypoint \<Rightarrow> waypoint \<Rightarrow> real \<times> real" where
  "approachPosition intersection connectedPoint =
     (let dx = wx intersection - wx connectedPoint;
          dy = wy intersection - wy connectedPoint;
          distance = hypot dx dy;
          normalizedDx = dx / distance;
          normalizedDy = dy / distance
      in (wx intersection - normalizedDx * 25, wy intersection - normalizedDy * 25))"

definition tooClose :: "real \<times> real \<Rightarrow> waypoint list \<Rightarrow> bool" where
  "tooClose approach pts =
     list_ex (\<lambda>existingPoint. hypot (fst approach - wx existingPoint)
                                       (snd approach - wy existingPoint) < 15) pts"

definition wantsApproach :: "zone list \<Rightarrow> roadNetwork \<Rightarrow> nat \<Rightarrow> nat \<Rightarrow> bool" where
  "wantsApproach rzs net intersectionIndex connectionId =
     (let intersection = rn_points net ! intersectionIndex;
          connectedPoint = rn_points net ! connectionId;
          distance = hypot (wx intersection - wx connectedPoint)
                           (wy intersection - wy connectedPoint);
          approach = approachPosition intersection connectedPoint
      in if distance > 25 * 2
         then (if isOnRoad rzs (fst approach) (snd approach)
               then \<not> tooClose approach (rn_points net)
               else False)
         else False)"

text \<open>
  The new waypoint, its own adjacency \<open>[intersectionIndex, connectionId]\<close> and the push
  onto the adjacency of the intersection.
\<close>

definition pushApproach :: "nat \<Rightarrow> nat \<Rightarrow> roadNetwork \<Rightarrow> roadNetwork" where
  "pushApproach intersectionIndex connectionId net =
     (let approach = approachPosition (rn_points net ! intersectionIndex)
                       (rn_points net ! connectionId);
          approachId = length (rn_points net);
          net1 = net\<lparr>rn_points := rn_points net @
                       [noMetadata\<lparr>wid := approachId, wx := js_round (fst approach),
                                   wy := js_round (snd approach), isApproach := True,
                                   parentIntersection := Some intersectionIndex\<rparr>],
                     connections := connections net @ [[intersectionIndex, connectionId]]\<rparr>
      in net1\<lparr>connections := (connections net1)
                 [intersectionIndex := connections net1 ! intersectionIndex @ [approachId]]\<rparr>)"

text \<open>The push onto the adjacency of the connected waypoint.\<close>

definition linkApproach :: "nat \<Rightarrow> roadNetwork \<Rightarrow> roadNetwork" where
  "linkApproach connectionId net =
     net\<lparr>connections := (connections net)
            [connectionId := connections net ! connectionId @ [length (rn_points net) - 1]]\<rparr>"

text \<open>
  The loop \<open>for (let connectionId of connections)\<close> of \<open>enhanceIntersection\<close>. The array
  iterated is \<open>connections[intersectionIndex]\<close> itself, which grows while the loop
  runs: \<open>k\<close> is the position of the iterator in the array as it stands. Reading a
  coordinate of \<open>points[connectionId]\<close>, or pushing onto \<open>connections[connectionId]\<close>,
  throws where there is no such entry.
\<close>

function enhanceLoop :: "zone list \<Rightarrow> nat \<Rightarrow> nat \<Rightarrow> roadNetwork \<Rightarrow> error option \<times> roadNetwork" where
  "enhanceLoop rzs intersectionIndex k net =
     (if \<not> k < length (connections net ! intersectionIndex) then (None, net)
      else if \<not> connections net ! intersectionIndex ! k < length (rn_points net)
      then (Some TypeError, net)
      else if wantsApproach rzs net intersectionIndex (connections net ! intersectionIndex ! k)
      then (if \<not> connections net ! intersectionIndex ! k
                   < length (connections (pushApproach intersectionIndex
                        (connections net ! intersectionIndex ! k) net))
            then (Some TypeError,
                  pushApproach intersectionIndex (connections net ! intersectionIndex ! k) net)
            else enhanceLoop rzs intersectionIndex (k + 1)
                   (linkApproach (connections net ! intersectionIndex ! k)
                      (pushApproach intersectionIndex (connections net ! intersectionIndex ! k) net)))
      else enhanceLoop rzs intersectionIndex (k + 1) net)"
  by pat_completeness auto

lemma rn_points_pushApproach:
  "rn_points (pushApproach i c net) =
     rn_points net @ [noMetadata\<lparr>wid := length (rn_points net),
        wx := js_round (fst (approachPosition (rn_points net ! i) (rn_points net ! c))),
        wy := js_round (snd (approachPosition (rn_points net ! i) (rn_points net ! c))),
        isApproach := True, parentIntersection := Some i\<rparr>]"
  by (simp add: pushApproach_def Let_def)

lemma rn_points_linkApproach: "rn_points (linkApproach c net) = rn_points net"
  by (simp add: linkApproach_def)

lemma wantsApproach_card_less:
  assumes "wantsApproach rzs net i c"
  shows "card (approachSites rzs - wpos ` set (rn_points (linkApproach c (pushApproach i c net))))
           < card (approachSites rzs - wpos ` set (rn_points net))"
proof -
  let ?a = "approachPosition (rn_points net ! i) (rn_points net ! c)"
  from assms have road: "isOnRoad rzs (fst ?a) (snd ?a)"
    and far: "\<not> list_ex (\<lambda>e. hypot (fst ?a - wx e) (snd ?a - wy e) < 15) (rn_points net)"
    by (simp_all add: wantsApproach_def tooClose_def Let_def split: if_splits)
  show ?thesis
    unfolding rn_points_linkApproach rn_points_pushApproach
    by (rule approach_card_less [OF road far]) (simp add: wpos_def)
qed

termination enhanceLoop
proof (relation "measures
    [\<lambda>(rzs, idx, k, net). card (approachSites rzs - wpos ` set (rn_points net)),
     \<lambda>(rzs, idx, k, net). length (connections net ! idx) - k]", goal_cases)
  case 1
  show ?case by simp
next
  case (2 rzs idx k net)
  then show ?case using wantsApproach_card_less by simp
next
  case (3 rzs idx k net)
  then show ?case by auto
qed

declare enhanceLoop.simps [simp del]

text \<open>
  \<open>enhanceIntersection\<close>: approach waypoints are added only at intersections with at
  least four connections.
\<close>

definition enhanceIntersection :: "zone list \<Rightarrow> nat \<Rightarrow> roadNetwork \<Rightarrow> error option \<times> roadNetwork" where
  "enhanceIntersection rzs intersectionIndex net =
     (if \<not> intersectionIndex < length (connections net) then (Some TypeError, net)
      else if length (connections net ! intersectionIndex) \<ge> 4
      then (if \<not> intersectionIndex < length (rn_points net) then (Some TypeError, net)
            else enhanceLoop rzs intersectionIndex 0 net)
      else (None, net))"

lemma enhanceLoop_points:
  "rn_points (snd (enhanceLoop rzs idx k net)) = rn_points net \<or>
   card (approachSites rzs - wpos ` set (rn_points (snd (enhanceLoop rzs idx k net))))
     < card (approachSites rzs - wpos ` set (rn_points net))"
proof (induction rzs idx k net rule: enhanceLoop.induct)
  case (1 rzs idx k net)
  let ?c = "connections net ! idx ! k"
  show ?case
  proof (cases "k < length (connections net ! idx) \<and> ?c < length (rn_points net)")
    case False
    then show ?thesis by (subst enhanceLoop.simps) auto
  next
    case inrange: True
    show ?thesis
    proof (cases "wantsApproach rzs net idx ?c")
      case False
      with inrange 1(2) show ?thesis by (subst (1 2) enhanceLoop.simps) auto
    next
      case want: True
      let ?p = "pushApproach idx ?c net"
      have less: "card (approachSites rzs - wpos ` set (rn_points (linkApproach ?c ?p)))
                    < card (approachSites rzs - wpos ` set (rn_points net))"
        by (rule wantsApproach_card_less [OF want])
      show ?thesis
      proof (cases "?c < length (connections ?p)")
        case False
        with inrange want less show ?thesis
          by (subst (1 2) enhanceLoop.simps) (simp add: rn_points_linkApproach)
      next
        case True
        from 1(1) inrange want True
        have "rn_points (snd (enhanceLoop rzs idx (k + 1) (linkApproach ?c ?p)))
                = rn_points (linkApproach ?c ?p) \<or>
              card (approachSites rzs - wpos ` set (rn_points (snd (enhanceLoop rzs idx (k + 1) (linkApproach ?c ?p)))))
                < card (approachSites rzs - wpos ` set (rn_points (linkApproach ?c ?p)))"
          by simp
        with less have "card (approachSites rzs - wpos ` set (rn_points (snd (enhanceLoop rzs idx (k + 1) (linkApproach ?c ?p)))))
                < card (approachSites rzs - wpos ` set (rn_points net))"
          by auto
        with inrange want True show ?thesis
          by (subst (1 2) enhanceLoop.simps) simp
      qed
    qed
  qed
qed

lemma enhanceIntersection_points:
  "rn_points (snd (enhanceIntersection rzs idx net)) = rn_points net \<or>
   card (approachSites rzs - wpos ` set (rn_points (snd (enhanceIntersection rzs idx net))))
     < card (approachSites rzs - wpos ` set (rn_points net))"
  using enhanceLoop_points [of rzs idx 0 net] by (simp add: enhanceIntersection_def)

lemma wpos_flag:
  "i < length pts \<Longrightarrow> wpos ` set (pts[i := (pts ! i)\<lparr>isIntersection := True\<rparr>]) = wpos ` set pts"
proof -
  assume i: "i < length pts"
  have "map wpos (pts[i := (pts ! i)\<lparr>isIntersection := True\<rparr>]) = map wpos pts"
    using i by (simp add: list_eq_iff_nth_eq nth_list_update wpos_def)
  then have "set (map wpos (pts[i := (pts ! i)\<lparr>isIntersection := True\<rparr>])) = set (map wpos pts)"
    by simp
  then show ?thesis by simp
qed

text \<open>
  \<open>identifyIntersections\<close>. The bound \<open>points.length\<close> is read afresh in every round,
  so the loop also visits the approach waypoints added on the way.
\<close>

definition markIntersection :: "nat \<Rightarrow> roadNetwork \<Rightarrow> roadNetwork" where
  "markIntersection i net =
     net\<lparr>rn_points := (rn_points net)[i := (rn_points net ! i)\<lparr>isIntersection := True\<rparr>]\<rparr>"

function identifyLoop :: "zone list \<Rightarrow> nat \<Rightarrow> roadNetwork \<Rightarrow> error option \<times> roadNetwork" where
  "identifyLoop rzs i net =
     (if \<not> i < length (rn_points net) then (None, net)
      else if \<not> i < length (connections net) then (Some TypeError, net)
      else if length (connections net ! i) \<ge> 3
      then (case enhanceIntersection rzs i (markIntersection i net) of
              (None, net') \<Rightarrow> identifyLoop rzs (i + 1) net'
            | (Some e, net') \<Rightarrow> (Some e, net'))
      else identifyLoop rzs (i + 1) net)"
  by pat_completeness auto
termination
proof (relation "measures
    [\<lambda>(rzs, i, net). card (approachSites rzs - wpos ` set (rn_points net)),
     \<lambda>(rzs, i, net). length (rn_points net) - i]", goal_cases)
  case 1
  show ?case by simp
next
  case (2 rzs i net x1 x2)
  have same: "wpos ` set (rn_points (markIntersection i net)) = wpos ` set (rn_points net)"
    using 2(1) by (simp add: markIntersection_def wpos_flag)
  have len: "length (rn_points (markIntersection i net)) = length (rn_points net)"
    by (simp add: markIntersection_def)
  from 2 have x2: "x2 = snd (enhanceIntersection rzs i (markIntersection i net))"
    by (metis snd_conv)
  from enhanceIntersection_points [of rzs i "markIntersection i net"]
  show ?case
  proof
    assume "rn_points (snd (enhanceIntersection rzs i (markIntersection i net)))
              = rn_points (markIntersection i net)"
    then show ?thesis using 2(1) same len x2 by simp
  next
    assume "card (approachSites rzs - wpos ` set (rn_points (snd (enhanceIntersection rzs i (markIntersection i net)))))
              < card (approachSites rzs - wpos ` set (rn_points (markIntersection i net)))"
    then show ?thesis using same x2 by simp
  qed
next
  case (3 rzs i net)
  then show ?case by auto
qed

declare identifyLoop.simps [simp del]

definition identifyIntersections :: "zone list \<Rightarrow> roadNetwork \<Rightarrow> error option \<times> roadNetwork" where
  "identifyIntersections rzs net = identifyLoop rzs 0 net"

text \<open>\<open>Math.atan2\<close> on reals.\<close>

definition atan2 :: "real \<Rightarrow> real \<Rightarrow> real" where
  "atan2 b a =
     (if a > 0 then arctan (b / a)
      else if a < 0 \<and> b \<ge> 0 then arctan (b / a) + pi
      else if a < 0 then arctan (b / a) - pi
      else if b > 0 then pi / 2
      else if b < 0 then - (pi / 2)
      else 0)"

text \<open>
  \<open>optimizeIntersectionConnections\<close> for one waypoint: the adjacency of an
  intersection is sorted by the angle of the neighbour, a stable sort by that key. The
  comparator reads the coordinates of the neighbours and throws on a missing one; it
  runs as soon as there are two entries.
\<close>

definition optimizeOne :: "nat \<Rightarrow> roadNetwork \<Rightarrow> error option \<times> roadNetwork" where
  "optimizeOne i net =
     (let point = rn_points net ! i
      in if isIntersection point
         then (if \<not> i < length (connections net) then (Some TypeError, net)
               else if length (connections net ! i) \<ge> 2 \<and>
                       list_ex (\<lambda>a. \<not> a < length (rn_points net)) (connections net ! i)
               then (Some TypeError, net)
               else (None, net\<lparr>connections := (connections net)
                       [i := sort_key (\<lambda>a. atan2 (wy (rn_points net ! a) - wy point)
                                                   (wx (rn_points net ! a) - wx point))
                               (connections net ! i)]\<rparr>))
         else (None, net))"

definition optimizeIntersectionConnections :: "roadNetwork \<Rightarrow> error option \<times> roadNetwork" where
  "optimizeIntersectionConnections net = forEach optimizeOne [0 ..< length (rn_points net)] net"

definition connectNearbyWaypoints :: "zone list \<Rightarrow> roadNetwork \<Rightarrow> error option \<times> roadNetwork" where
  "connectNearbyWaypoints rzs net =
     (case forEach (connectPair rzs) (waypointPairs (length (rn_points net))) net of
        (Some e, net1) \<Rightarrow> (Some e, net1)
      | (None, net1) \<Rightarrow>
          (case identifyIntersections rzs net1 of
             (Some e, net2) \<Rightarrow> (Some e, net2)
           | (None, net2) \<Rightarrow> optimizeIntersectionConnections net2))"

definition identifyEdgePoints :: "real \<Rightarrow> real \<Rightarrow> roadNetwork \<Rightarrow> roadNetwork" where
  "identifyEdgePoints W H net =
     net\<lparr>edgePoints := edgePoints net @
        filter (\<lambda>i. let point = rn_points net ! i
                    in wx point \<le> EDGE_THRESHOLD \<or> wx point \<ge> W - EDGE_THRESHOLD \<or>
                       wy point \<le> EDGE_THRESHOLD \<or> wy point \<ge> H - EDGE_THRESHOLD)
          [0 ..< length (rn_points net)]\<rparr>"

definition zoneEntryPoints :: "waypoint list \<Rightarrow> zone \<Rightarrow> nat list" where
  "zoneEntryPoints pts z =
     filter (\<lambda>i. list_ex (\<lambda>zonePoint.
                     let distance = hypot (wx (pts ! i) - cx zonePoint) (wy (pts ! i) - cy zonePoint);
                         proximityThreshold = radius zonePoint + 40
                     in distance \<le> proximityThreshold \<and> distance \<ge> radius zonePoint - 20)
                   (points z))
       [0 ..< length pts]"

definition findZoneEntryPoints :: "zone list \<Rightarrow> roadNetwork \<Rightarrow> roadNetwork" where
  "findZoneEntryPoints residentials net =
     fold (\<lambda>zoneIndex n. n\<lparr>zoneEntries :=
              (zoneEntries n)(zoneIndex \<mapsto> zoneEntryPoints (rn_points n) (residentials ! zoneIndex))\<rparr>)
       [0 ..< length residentials] net"

text \<open>
  The statements of the \<open>try\<close> block of \<open>buildRoadNetwork\<close> before its last one, on the
  network of the game.
\<close>

definition rebuildSteps :: "'l game \<Rightarrow> error option \<times> 'l game" where
  "rebuildSteps g =
     (let net0 = (roadNetwork g)\<lparr>rn_points := [], connections := [], edgePoints := [],
                                  zoneEntries := (\<lambda>_. None)\<rparr>;
          st = fold (extractRoadCenterline (roadZones g)) (roadZones g) (net0, 0)
      in case connectNearbyWaypoints (roadZones g) (fst st) of
           (Some e, net1) \<Rightarrow> (Some e, g\<lparr>roadNetwork := net1\<rparr>)
         | (None, net1) \<Rightarrow>
             (None, g\<lparr>roadNetwork :=
                findZoneEntryPoints (residentialZones g)
                  (identifyEdgePoints (worldWidth g) (worldHeight g) net1)\<rparr>))"

text \<open>
  \<open>buildRoadNetwork\<close> around any \<open>try\<close> block: on normal completion the last statement
  of the block clears \<open>needsRebuild\<close>; an exception is caught, and the handler clears
  the flag on the network as the throw left it.
\<close>

definition buildRoadNetworkWith :: "('l game \<Rightarrow> error option \<times> 'l game) \<Rightarrow> 'l game \<Rightarrow> 'l game" where
  "buildRoadNetworkWith steps g =
     (case steps g of
        (None, g') \<Rightarrow> g'\<lparr>roadNetwork := (roadNetwork g')\<lparr>needsRebuild := False\<rparr>\<rparr>
      | (Some e, g') \<Rightarrow> g'\<lparr>roadNetwork := (roadNetwork g')\<lparr>needsRebuild := False\<rparr>\<rparr>)"

definition buildRoadNetwork :: "'l game \<Rightarrow> 'l game" where
  "buildRoadNetwork g = buildRoadNetworkWith rebuildSteps g"

text \<open>
  Claim C9. Every execution of \<open>buildRoadNetwork\<close> returns with \<open>needsRebuild\<close> false:
  the function is total, and whatever the statements of the \<open>try\<close> block do, complete
  or throw, the flag is cleared.
\<close>

theorem buildRoadNetwork_clears_flag:
  "needsRebuild (roadNetwork (buildRoadNetwork g)) = False \<and>
   (\<forall>steps. needsRebuild (roadNetwork (buildRoadNetworkWith steps g)) = False)"
  by (simp add: buildRoadNetwork_def buildRoadNetworkWith_def split: prod.split option.split)

section \<open>Symmetry of the adjacency\<close>

text \<open>The directed edges an adjacency list holds, and what a sound network is.\<close>

definition edges_of :: "nat list list \<Rightarrow> (nat \<times> nat) set" where
  "edges_of cs = {(i, j). i < length cs \<and> j \<in> set (cs ! i)}"

definition symmetricNet :: "roadNetwork \<Rightarrow> bool" where
  "symmetricNet net \<longleftrightarrow>
     length (connections net) = length (rn_points net) \<and>
     sym (edges_of (connections net)) \<and>
     edges_of (connections net) \<subseteq> {..< length (connections net)} \<times> {..< length (connections net)}"

lemma edges_of_push:
  "i < length cs \<Longrightarrow> edges_of (cs[i := cs ! i @ [j]]) = insert (i, j) (edges_of cs)"
  by (auto simp: edges_of_def nth_list_update split: if_splits)

lemma edges_of_append:
  "edges_of (cs @ [ns]) = edges_of cs \<union> {length cs} \<times> set ns"
  by (auto simp: edges_of_def nth_append split: if_splits)

lemma edges_of_set_eq:
  "i < length cs \<Longrightarrow> set ns = set (cs ! i) \<Longrightarrow> edges_of (cs[i := ns]) = edges_of cs"
  by (auto simp: edges_of_def nth_list_update split: if_splits)

lemma edges_of_replicate: "edges_of (replicate n []) = {}"
  by (auto simp: edges_of_def)

lemma symmetricNet_edge:
  assumes "symmetricNet net" and "i < length (connections net)" and "j \<in> set (connections net ! i)"
  shows "j < length (connections net)" and "i \<in> set (connections net ! j)"
proof -
  from assms(2,3) have e: "(i, j) \<in> edges_of (connections net)" by (simp add: edges_of_def)
  with assms(1) show "j < length (connections net)" by (auto simp: symmetricNet_def)
  from e assms(1) have "(j, i) \<in> edges_of (connections net)"
    by (auto simp: symmetricNet_def sym_def)
  then show "i \<in> set (connections net ! j)" by (simp add: edges_of_def)
qed

subsection \<open>Extraction leaves every waypoint without connections\<close>

definition unconnected :: "build \<Rightarrow> bool" where
  "unconnected st \<longleftrightarrow> connections (fst st) = replicate (length (rn_points (fst st))) []"

lemma addWaypoint_unconnected:
  "unconnected st \<Longrightarrow> unconnected (snd (addWaypoint x0 y0 m st))"
  by (auto simp: addWaypoint_def unconnected_def Let_def replicate_append_same split: option.splits)

text \<open>
  Whatever \<open>addWaypoint\<close> preserves for waypoints that are not approach waypoints, the
  whole extraction preserves.
\<close>

lemma addIntermediate_preserves:
  assumes add: "\<And>x0 y0 m st. P st \<Longrightarrow> \<not> isApproach m \<Longrightarrow> P (snd (addWaypoint x0 y0 m st))"
    and st: "P st"
  shows "P (addIntermediate rzs p q i steps step st)"
proof -
  let ?t = "real step / real steps"
  let ?m = "noMetadata\<lparr>roadRadius := Some (min (radius p) (radius q)),
                        segmentIndex := Some (real i + ?t), isIntermediate := True\<rparr>"
  have "\<not> isApproach ?m" by (simp add: noMetadata_def)
  with st have "P (snd (addWaypoint (cx p + (cx q - cx p) * ?t) (cy p + (cy q - cy p) * ?t) ?m st))"
    by (rule add)
  with st show ?thesis by (simp add: addIntermediate_def Let_def)
qed

lemma fold_preserves:
  assumes "\<And>a st. P st \<Longrightarrow> P (f a st)" and "P st"
  shows "P (fold f xs st)"
  using assms(2) by (induction xs arbitrary: st) (simp_all add: assms(1))

lemma waypointsLoop_preserves:
  assumes add: "\<And>x0 y0 m st. P st \<Longrightarrow> \<not> isApproach m \<Longrightarrow> P (snd (addWaypoint x0 y0 m st))"
    and "P st"
  shows "P (waypointsLoop rzs i ps st)"
  using assms(2)
proof (induction ps arbitrary: i st)
  case Nil
  then show ?case by simp
next
  case (Cons p rest)
  let ?st1 = "snd (addWaypoint (cx p) (cy p)
                 (noMetadata\<lparr>roadRadius := Some (radius p), segmentIndex := Some (real i),
                              isRoadCenter := True\<rparr>) st)"
  have "\<not> isApproach (noMetadata\<lparr>roadRadius := Some (radius p), segmentIndex := Some (real i),
                              isRoadCenter := True\<rparr>)"
    by (simp add: noMetadata_def)
  with Cons.prems have p1: "P ?st1" by (rule add)
  show ?case
  proof (cases rest)
    case Nil
    with p1 show ?thesis by (simp add: Let_def)
  next
    case (Cons q rest')
    let ?d = "hypot (cx q - cx p) (cy q - cy p)"
    let ?st2 = "if ?d > 50
                then fold (addIntermediate rzs p q i (nat \<lceil>?d / 30\<rceil>)) [1 ..< nat \<lceil>?d / 30\<rceil>] ?st1
                else ?st1"
    have "P (fold (addIntermediate rzs p q i (nat \<lceil>?d / 30\<rceil>)) [1 ..< nat \<lceil>?d / 30\<rceil>] ?st1)"
    proof (rule fold_preserves)
      fix step st' assume "P st'"
      with add show "P (addIntermediate rzs p q i (nat \<lceil>?d / 30\<rceil>) step st')"
        by (rule addIntermediate_preserves)
    qed (rule p1)
    with p1 have "P ?st2" by simp
    then have "P (waypointsLoop rzs (i + 1) rest ?st2)" by (rule Cons.IH)
    moreover have "waypointsLoop rzs i (p # rest) st = waypointsLoop rzs (i + 1) rest ?st2"
      unfolding Cons by (subst waypointsLoop.simps(2)) (simp only: Let_def list.case)
    ultimately show ?thesis by simp
  qed
qed

lemma createWaypointsForSegment_preserves:
  assumes add: "\<And>x0 y0 m st. P st \<Longrightarrow> \<not> isApproach m \<Longrightarrow> P (snd (addWaypoint x0 y0 m st))"
    and "P st"
  shows "P (createWaypointsForSegment rzs seg st)"
proof (cases "seg = []")
  case True
  with assms(2) show ?thesis by (simp add: createWaypointsForSegment_def)
next
  case False
  have "P (waypointsLoop rzs 0 (sortPointsForFlow seg) st)"
    using add assms(2) by (rule waypointsLoop_preserves)
  with False show ?thesis by (simp add: createWaypointsForSegment_def)
qed

lemma extractRoadCenterline_preserves:
  assumes add: "\<And>x0 y0 m st. P st \<Longrightarrow> \<not> isApproach m \<Longrightarrow> P (snd (addWaypoint x0 y0 m st))"
    and "P st"
  shows "P (extractRoadCenterline rzs z st)"
proof (cases "points z = []")
  case True
  with assms(2) show ?thesis by (simp add: extractRoadCenterline_def)
next
  case False
  have "P (fold (createWaypointsForSegment rzs)
             (segmentsLoop (points z) [0 ..< length (points z)] {} []) st)"
  proof (rule fold_preserves)
    fix seg st' assume "P st'"
    with add show "P (createWaypointsForSegment rzs seg st')"
      by (rule createWaypointsForSegment_preserves)
  qed (rule assms(2))
  with False show ?thesis by (simp add: extractRoadCenterline_def)
qed

lemma extraction_preserves:
  assumes add: "\<And>x0 y0 m st. P st \<Longrightarrow> \<not> isApproach m \<Longrightarrow> P (snd (addWaypoint x0 y0 m st))"
    and "P st"
  shows "P (fold (extractRoadCenterline rzs) zs st)"
proof (rule fold_preserves)
  fix z st' assume "P st'"
  with add show "P (extractRoadCenterline rzs z st')"
    by (rule extractRoadCenterline_preserves)
qed (rule assms(2))

lemma unconnected_symmetric: "unconnected st \<Longrightarrow> symmetricNet (fst st)"
  by (simp add: unconnected_def symmetricNet_def edges_of_replicate sym_def)

lemma symmetricNet_cong:
  assumes "symmetricNet net" and "connections net' = connections net"
    and "length (rn_points net') = length (rn_points net)"
  shows "symmetricNet net'"
  using assms unfolding symmetricNet_def by metis

subsection \<open>The pairwise pass\<close>

lemma symmetric_add_edge:
  assumes s: "symmetricNet net" and i: "i < length (connections net)"
    and j: "j < length (connections net)"
  shows "symmetricNet (net\<lparr>connections :=
           ((connections net)[i := connections net ! i @ [j]])
             [j := ((connections net)[i := connections net ! i @ [j]]) ! j @ [i]]\<rparr>)"
proof -
  let ?cs = "connections net"
  let ?c1 = "?cs[i := ?cs ! i @ [j]]"
  have e1: "edges_of ?c1 = insert (i, j) (edges_of ?cs)"
    using i by (rule edges_of_push)
  have "j < length ?c1" using j by simp
  then have e2: "edges_of (?c1[j := ?c1 ! j @ [i]]) = insert (j, i) (edges_of ?c1)"
    by (rule edges_of_push)
  from s have sy: "sym (edges_of ?cs)"
    and sub: "edges_of ?cs \<subseteq> {..< length ?cs} \<times> {..< length ?cs}"
    and len: "length ?cs = length (rn_points net)"
    unfolding symmetricNet_def by blast+
  have "sym (insert (j, i) (insert (i, j) (edges_of ?cs)))"
    using sy by (auto simp: sym_def)
  moreover have "insert (j, i) (insert (i, j) (edges_of ?cs)) \<subseteq> {..< length ?cs} \<times> {..< length ?cs}"
    using sub i j by auto
  ultimately show ?thesis
    using len by (simp add: symmetricNet_def e1 e2)
qed

lemma connectPair_symmetric:
  assumes s: "symmetricNet net" and ij: "i < j" and j: "j < length (rn_points net)"
  shows "fst (connectPair rzs (i, j) net) = None \<and>
         symmetricNet (snd (connectPair rzs (i, j) net)) \<and>
         rn_points (snd (connectPair rzs (i, j) net)) = rn_points net"
proof -
  from s have len: "length (connections net) = length (rn_points net)"
    by (simp add: symmetricNet_def)
  with ij j have i': "i < length (connections net)" and j': "j < length (connections net)"
    by simp_all
  from symmetric_add_edge [OF s i' j'] s i' j' show ?thesis
    by (simp add: connectPair_def Let_def)
qed

lemma forEach_invariant:
  assumes step: "\<And>a s. a \<in> set xs \<Longrightarrow> I s \<Longrightarrow> fst (f a s) = None \<and> I (snd (f a s))"
    and "I s"
  shows "fst (forEach f xs s) = None \<and> I (snd (forEach f xs s))"
  using assms
proof (induction xs arbitrary: s)
  case Nil
  then show ?case by simp
next
  case (Cons a xs)
  from Cons.prems(1) [of a s] Cons.prems(2)
  have a: "fst (f a s) = None" "I (snd (f a s))" by simp_all
  have "fst (forEach f xs (snd (f a s))) = None \<and> I (snd (forEach f xs (snd (f a s))))"
    using Cons.prems(1) a(2) by (intro Cons.IH) simp_all
  moreover have "forEach f (a # xs) s = forEach f xs (snd (f a s))"
    using a(1) by (cases "f a s") simp
  ultimately show ?case by simp
qed

lemma waypointPairs_mem: "(i, j) \<in> set (waypointPairs n) \<Longrightarrow> i < j \<and> j < n"
  by (auto simp: waypointPairs_def)

lemma connect_pass_symmetric:
  assumes "symmetricNet net"
  shows "fst (forEach (connectPair rzs) (waypointPairs (length (rn_points net))) net) = None \<and>
         symmetricNet (snd (forEach (connectPair rzs) (waypointPairs (length (rn_points net))) net)) \<and>
         rn_points (snd (forEach (connectPair rzs) (waypointPairs (length (rn_points net))) net))
           = rn_points net"
proof -
  let ?I = "\<lambda>s. symmetricNet s \<and> rn_points s = rn_points net"
  have "fst (forEach (connectPair rzs) (waypointPairs (length (rn_points net))) net) = None \<and>
        ?I (snd (forEach (connectPair rzs) (waypointPairs (length (rn_points net))) net))"
  proof (rule forEach_invariant)
    fix a s
    assume a: "a \<in> set (waypointPairs (length (rn_points net)))" and I: "?I s"
    obtain i j where aij: "a = (i, j)" by (cases a)
    with a have "i < j" "j < length (rn_points s)"
      using waypointPairs_mem I by auto
    with I connectPair_symmetric [of s i j rzs] aij
    show "fst (connectPair rzs a s) = None \<and> ?I (snd (connectPair rzs a s))" by simp
  qed (simp add: assms)
  then show ?thesis by simp
qed

subsection \<open>Approach waypoints\<close>

lemma approach_symmetric:
  assumes s: "symmetricNet net" and i: "idx < length (connections net)"
    and c: "c < length (connections net)"
  shows "symmetricNet (linkApproach c (pushApproach idx c net))"
proof -
  let ?cs = "connections net"
  let ?n = "length ?cs"
  from s have len: "?n = length (rn_points net)"
    and sy: "sym (edges_of ?cs)"
    and sub: "edges_of ?cs \<subseteq> {..< ?n} \<times> {..< ?n}"
    unfolding symmetricNet_def by blast+
  let ?c1 = "?cs @ [[idx, c]]"
  let ?c2 = "?c1[idx := ?c1 ! idx @ [?n]]"
  let ?c3 = "?c2[c := ?c2 ! c @ [?n]]"
  have conn: "connections (linkApproach c (pushApproach idx c net)) = ?c3"
    by (simp add: linkApproach_def pushApproach_def Let_def len)
  have pts: "length (rn_points (linkApproach c (pushApproach idx c net))) = Suc ?n"
    by (simp add: linkApproach_def pushApproach_def Let_def len)
  have e1: "edges_of ?c1 = edges_of ?cs \<union> {?n} \<times> {idx, c}"
    by (simp add: edges_of_append)
  have "idx < length ?c1" using i by simp
  then have e2: "edges_of ?c2 = insert (idx, ?n) (edges_of ?c1)" by (rule edges_of_push)
  have "c < length ?c2" using c by simp
  then have e3: "edges_of ?c3 = insert (c, ?n) (edges_of ?c2)" by (rule edges_of_push)
  have all: "edges_of ?c3 = edges_of ?cs \<union> {(?n, idx), (?n, c), (idx, ?n), (c, ?n)}"
    unfolding e3 e2 e1 by auto
  have "sym (edges_of ?c3)"
    unfolding all using sy by (auto simp: sym_def)
  moreover have "edges_of ?c3 \<subseteq> {..< Suc ?n} \<times> {..< Suc ?n}"
    unfolding all using sub i c by auto
  moreover have "length ?c3 = Suc ?n" by simp
  ultimately show ?thesis
    unfolding symmetricNet_def conn pts by simp
qed

lemma enhanceLoop_symmetric:
  "symmetricNet net \<Longrightarrow> idx < length (connections net) \<Longrightarrow>
   fst (enhanceLoop rzs idx k net) = None \<and> symmetricNet (snd (enhanceLoop rzs idx k net))"
proof (induction rzs idx k net rule: enhanceLoop.induct)
  case (1 rzs idx k net)
  let ?c = "connections net ! idx ! k"
  show ?case
  proof (cases "k < length (connections net ! idx)")
    case False
    with 1(3) show ?thesis by (subst (1 2) enhanceLoop.simps) simp
  next
    case k: True
    then have "?c \<in> set (connections net ! idx)" by simp
    from symmetricNet_edge(1) [OF 1(3) 1(4) this]
    have c: "?c < length (connections net)" .
    from 1(3) have len: "length (connections net) = length (rn_points net)"
      by (simp add: symmetricNet_def)
    with c have cp: "?c < length (rn_points net)" by simp
    show ?thesis
    proof (cases "wantsApproach rzs net idx ?c")
      case False
      from 1(2) [OF _ _ False 1(3) 1(4)] k cp
      have "fst (enhanceLoop rzs idx (k + 1) net) = None \<and>
            symmetricNet (snd (enhanceLoop rzs idx (k + 1) net))" by simp
      with k cp False show ?thesis by (subst (1 2) enhanceLoop.simps) simp
    next
      case want: True
      let ?p = "pushApproach idx ?c net"
      have cl: "?c < length (connections ?p)"
        using c by (simp add: pushApproach_def Let_def)
      have sym': "symmetricNet (linkApproach ?c ?p)"
        by (rule approach_symmetric [OF 1(3) 1(4) c])
      have idx': "idx < length (connections (linkApproach ?c ?p))"
        using 1(4) by (simp add: linkApproach_def pushApproach_def Let_def)
      from 1(1) [OF _ _ want _ sym' idx'] k cp cl
      have "fst (enhanceLoop rzs idx (k + 1) (linkApproach ?c ?p)) = None \<and>
            symmetricNet (snd (enhanceLoop rzs idx (k + 1) (linkApproach ?c ?p)))" by simp
      with k cp want cl show ?thesis by (subst (1 2) enhanceLoop.simps) simp
    qed
  qed
qed

lemma enhanceIntersection_symmetric:
  assumes "symmetricNet net" and "idx < length (connections net)"
  shows "fst (enhanceIntersection rzs idx net) = None \<and>
         symmetricNet (snd (enhanceIntersection rzs idx net))"
proof -
  from assms have "idx < length (rn_points net)" by (simp add: symmetricNet_def)
  with assms enhanceLoop_symmetric [OF assms, of rzs 0] show ?thesis
    by (simp add: enhanceIntersection_def)
qed

lemma markIntersection_symmetric: "symmetricNet net \<Longrightarrow> symmetricNet (markIntersection i net)"
  by (erule symmetricNet_cong) (simp_all add: markIntersection_def)

lemma identifyLoop_symmetric:
  "symmetricNet net \<Longrightarrow>
   fst (identifyLoop rzs i net) = None \<and> symmetricNet (snd (identifyLoop rzs i net))"
proof (induction rzs i net rule: identifyLoop.induct)
  case (1 rzs i net)
  from 1(3) have len: "length (connections net) = length (rn_points net)"
    by (simp add: symmetricNet_def)
  show ?case
  proof (cases "i < length (rn_points net)")
    case False
    with 1(3) show ?thesis by (subst (1 2) identifyLoop.simps) simp
  next
    case i: True
    with len have ic: "i < length (connections net)" by simp
    show ?thesis
    proof (cases "length (connections net ! i) \<ge> 3")
      case False
      from 1(2) [OF _ _ False 1(3)] i ic
      have "fst (identifyLoop rzs (i + 1) net) = None \<and>
            symmetricNet (snd (identifyLoop rzs (i + 1) net))" by simp
      with i ic False show ?thesis by (subst (1 2) identifyLoop.simps) simp
    next
      case True
      let ?m = "markIntersection i net"
      have sm: "symmetricNet ?m" using 1(3) by (rule markIntersection_symmetric)
      have im: "i < length (connections ?m)" using ic by (simp add: markIntersection_def)
      obtain e net' where res: "enhanceIntersection rzs i ?m = (e, net')"
        by (cases "enhanceIntersection rzs i ?m")
      with enhanceIntersection_symmetric [OF sm im, of rzs]
      have e: "e = None" and s': "symmetricNet net'" by simp_all
      from 1(1) [OF _ _ True _ _ s'] i ic res e
      have "fst (identifyLoop rzs (i + 1) net') = None \<and>
            symmetricNet (snd (identifyLoop rzs (i + 1) net'))" by simp
      with i ic True res e show ?thesis by (subst (1 2) identifyLoop.simps) simp
    qed
  qed
qed

subsection \<open>Sorting the adjacency of an intersection\<close>

lemma optimizeOne_symmetric:
  assumes s: "symmetricNet net" and i: "i < length (rn_points net)"
  shows "fst (optimizeOne i net) = None \<and> symmetricNet (snd (optimizeOne i net)) \<and>
         rn_points (snd (optimizeOne i net)) = rn_points net"
proof (cases "isIntersection (rn_points net ! i)")
  case False
  with s show ?thesis by (simp add: optimizeOne_def Let_def)
next
  case True
  let ?cs = "connections net"
  let ?key = "\<lambda>a. atan2 (wy (rn_points net ! a) - wy (rn_points net ! i))
                        (wx (rn_points net ! a) - wx (rn_points net ! i))"
  from s have len: "length ?cs = length (rn_points net)"
    and sy: "sym (edges_of ?cs)"
    and sub: "edges_of ?cs \<subseteq> {..< length ?cs} \<times> {..< length ?cs}"
    unfolding symmetricNet_def by blast+
  from i len have ic: "i < length ?cs" by simp
  have inr: "\<not> list_ex (\<lambda>a. \<not> a < length (rn_points net)) (?cs ! i)"
    using symmetricNet_edge(1) [OF s ic] len by (auto simp: list_ex_iff)
  have "edges_of (?cs[i := sort_key ?key (?cs ! i)]) = edges_of ?cs"
    using ic by (intro edges_of_set_eq) simp_all
  moreover have "length (?cs[i := sort_key ?key (?cs ! i)]) = length ?cs" by simp
  ultimately have "symmetricNet (net\<lparr>connections := ?cs[i := sort_key ?key (?cs ! i)]\<rparr>)"
    using len sy sub unfolding symmetricNet_def by simp
  with True ic inr show ?thesis by (simp add: optimizeOne_def Let_def)
qed

lemma optimize_symmetric:
  assumes "symmetricNet net"
  shows "fst (optimizeIntersectionConnections net) = None \<and>
         symmetricNet (snd (optimizeIntersectionConnections net)) \<and>
         rn_points (snd (optimizeIntersectionConnections net)) = rn_points net"
proof -
  let ?I = "\<lambda>s. symmetricNet s \<and> rn_points s = rn_points net"
  have "fst (forEach optimizeOne [0 ..< length (rn_points net)] net) = None \<and>
        ?I (snd (forEach optimizeOne [0 ..< length (rn_points net)] net))"
  proof (rule forEach_invariant)
    fix a s
    assume "a \<in> set [0 ..< length (rn_points net)]" and I: "?I s"
    then have "a < length (rn_points s)" by simp
    with I optimizeOne_symmetric [of s a]
    show "fst (optimizeOne a s) = None \<and> ?I (snd (optimizeOne a s))" by simp
  qed (simp add: assms)
  then show ?thesis by (simp add: optimizeIntersectionConnections_def)
qed

lemma connectNearbyWaypoints_symmetric:
  assumes "symmetricNet net"
  shows "fst (connectNearbyWaypoints rzs net) = None \<and>
         symmetricNet (snd (connectNearbyWaypoints rzs net))"
proof -
  obtain e1 n1 where r1: "forEach (connectPair rzs) (waypointPairs (length (rn_points net))) net = (e1, n1)"
    by (cases "forEach (connectPair rzs) (waypointPairs (length (rn_points net))) net")
  with connect_pass_symmetric [OF assms, of rzs] have e1: "e1 = None" and s1: "symmetricNet n1"
    by simp_all
  obtain e2 n2 where r2: "identifyLoop rzs 0 n1 = (e2, n2)"
    by (cases "identifyLoop rzs 0 n1")
  with identifyLoop_symmetric [OF s1, of rzs 0] have e2: "e2 = None" and s2: "symmetricNet n2"
    by simp_all
  from optimize_symmetric [OF s2] r1 e1 r2 e2 show ?thesis
    by (simp add: connectNearbyWaypoints_def identifyIntersections_def)
qed

lemma findZoneEntryPoints_connections:
  "connections (findZoneEntryPoints rs net) = connections net \<and>
   rn_points (findZoneEntryPoints rs net) = rn_points net"
proof -
  have "\<And>xs. connections (fold (\<lambda>zoneIndex n. n\<lparr>zoneEntries :=
              (zoneEntries n)(zoneIndex \<mapsto> zoneEntryPoints (rn_points n) (rs ! zoneIndex))\<rparr>) xs net)
            = connections net \<and>
        rn_points (fold (\<lambda>zoneIndex n. n\<lparr>zoneEntries :=
              (zoneEntries n)(zoneIndex \<mapsto> zoneEntryPoints (rn_points n) (rs ! zoneIndex))\<rparr>) xs net)
            = rn_points net"
  proof -
    fix xs show "?thesis xs"
      by (induction xs arbitrary: net) simp_all
  qed
  then show ?thesis by (simp add: findZoneEntryPoints_def)
qed

lemma rebuildSteps_symmetric:
  "fst (rebuildSteps g) = None \<and> symmetricNet (roadNetwork (snd (rebuildSteps g)))"
proof -
  let ?net0 = "(roadNetwork g)\<lparr>rn_points := [], connections := [], edgePoints := [],
                                zoneEntries := (\<lambda>_. None)\<rparr>"
  let ?st = "fold (extractRoadCenterline (roadZones g)) (roadZones g) (?net0, 0)"
  have "unconnected (?net0, 0)" by (simp add: unconnected_def)
  then have "unconnected ?st"
    by (rule extraction_preserves [where P = unconnected, rotated])
       (rule addWaypoint_unconnected)
  then have s: "symmetricNet (fst ?st)" by (rule unconnected_symmetric)
  obtain e n1 where r: "connectNearbyWaypoints (roadZones g) (fst ?st) = (e, n1)"
    by (cases "connectNearbyWaypoints (roadZones g) (fst ?st)")
  with connectNearbyWaypoints_symmetric [OF s, of "roadZones g"]
  have e: "e = None" and s1: "symmetricNet n1" by simp_all
  have "symmetricNet (findZoneEntryPoints (residentialZones g)
          (identifyEdgePoints (worldWidth g) (worldHeight g) n1))"
    using s1 by (rule symmetricNet_cong)
      (simp_all add: findZoneEntryPoints_connections identifyEdgePoints_def)
  with r e show ?thesis by (simp add: rebuildSteps_def Let_def)
qed

lemma buildRoadNetwork_symmetric: "symmetricNet (roadNetwork (buildRoadNetwork g))"
proof -
  obtain e g' where r: "rebuildSteps g = (e, g')" by (cases "rebuildSteps g")
  with rebuildSteps_symmetric [of g] have "e = None" "symmetricNet (roadNetwork g')" by simp_all
  then have "symmetricNet ((roadNetwork g')\<lparr>needsRebuild := False\<rparr>)"
    by (elim symmetricNet_cong) simp_all
  with r \<open>e = None\<close> show ?thesis
    by (simp add: buildRoadNetwork_def buildRoadNetworkWith_def)
qed

section \<open>Spacing of the waypoints\<close>

definition waypointDistance :: "waypoint \<Rightarrow> waypoint \<Rightarrow> real" where
  "waypointDistance a b = hypot (wx a - wx b) (wy a - wy b)"

text \<open>
  What the builder keeps: a waypoint that is not an approach waypoint is at least
  \<open>MIN_POINT_DISTANCE\<close> from every waypoint before it, and any waypoint is more than 14
  from every waypoint before it.
\<close>

definition spaced :: "waypoint list \<Rightarrow> bool" where
  "spaced pts \<longleftrightarrow>
     (\<forall>i j. i < j \<and> j < length pts \<longrightarrow>
        (\<not> isApproach (pts ! j) \<longrightarrow> MIN_POINT_DISTANCE \<le> waypointDistance (pts ! i) (pts ! j)) \<and>
        14 < waypointDistance (pts ! i) (pts ! j))"

lemma hypot_swap: "hypot (a - b) (c - d) = hypot (b - a) (d - c)"
  by (simp add: hypot_def algebra_simps)

lemma hypot_triangle: "hypot (a + c) (b + d) \<le> hypot a b + hypot c d"
  using real_sqrt_sum_squares_triangle_ineq [of a c b d]
  by (simp add: hypot_def power2_eq_square)

lemma spaced_snoc:
  assumes "spaced pts"
    and "\<And>e. e \<in> set pts \<Longrightarrow>
           (\<not> isApproach w \<longrightarrow> MIN_POINT_DISTANCE \<le> waypointDistance e w) \<and>
           14 < waypointDistance e w"
  shows "spaced (pts @ [w])"
  unfolding spaced_def
proof (intro allI impI)
  fix i j assume ij: "i < j \<and> j < length (pts @ [w])"
  show "(\<not> isApproach ((pts @ [w]) ! j) \<longrightarrow>
           MIN_POINT_DISTANCE \<le> waypointDistance ((pts @ [w]) ! i) ((pts @ [w]) ! j)) \<and>
        14 < waypointDistance ((pts @ [w]) ! i) ((pts @ [w]) ! j)"
  proof (cases "j < length pts")
    case True
    with ij assms(1) show ?thesis by (simp add: spaced_def nth_append)
  next
    case False
    with ij have j: "j = length pts" and i: "i < length pts" by simp_all
    then have "pts ! i \<in> set pts" by simp
    from assms(2) [OF this] i j show ?thesis by (simp add: nth_append)
  qed
qed

lemma addWaypoint_spaced:
  assumes "spaced (rn_points (fst st))" and "\<not> isApproach m"
  shows "spaced (rn_points (fst (snd (addWaypoint x0 y0 m st))))"
proof (cases "find (\<lambda>e. hypot (js_round x0 - wx e) (js_round y0 - wy e) < MIN_POINT_DISTANCE)
                (rn_points (fst st))")
  case (Some e)
  with assms(1) show ?thesis by (simp add: addWaypoint_def Let_def)
next
  case None
  let ?w = "m\<lparr>wid := snd st, wx := js_round x0, wy := js_round y0\<rparr>"
  have far: "\<And>e. e \<in> set (rn_points (fst st)) \<Longrightarrow> MIN_POINT_DISTANCE \<le> waypointDistance e ?w"
  proof -
    fix e assume "e \<in> set (rn_points (fst st))"
    with None have "\<not> hypot (js_round x0 - wx e) (js_round y0 - wy e) < MIN_POINT_DISTANCE"
      by (auto simp: find_None_iff)
    then show "MIN_POINT_DISTANCE \<le> waypointDistance e ?w"
      by (simp add: waypointDistance_def hypot_swap [of "wx e"])
  qed
  have "spaced (rn_points (fst st) @ [?w])"
  proof (rule spaced_snoc [OF assms(1)])
    fix e assume "e \<in> set (rn_points (fst st))"
    from far [OF this] show "(\<not> isApproach ?w \<longrightarrow> MIN_POINT_DISTANCE \<le> waypointDistance e ?w) \<and>
           14 < waypointDistance e ?w"
      by (simp add: MIN_POINT_DISTANCE_def)
  qed
  with None show ?thesis by (simp add: addWaypoint_def Let_def)
qed

lemma extraction_spaced:
  "spaced (rn_points (fst (fold (extractRoadCenterline rzs) zs
     (net\<lparr>rn_points := [], connections := [], edgePoints := [], zoneEntries := (\<lambda>_. None)\<rparr>, 0))))"
proof (rule extraction_preserves [where P = "\<lambda>st. spaced (rn_points (fst st))"])
  fix x0 y0 and m :: waypoint and st :: build
  assume "spaced (rn_points (fst st))" and "\<not> isApproach m"
  then show "spaced (rn_points (fst (snd (addWaypoint x0 y0 m st))))"
    by (rule addWaypoint_spaced)
next
  show "spaced (rn_points (fst (net\<lparr>rn_points := [], connections := [], edgePoints := [],
                 zoneEntries := (\<lambda>_. None)\<rparr>, 0 :: nat)))"
    by (simp add: spaced_def)
qed

subsection \<open>Approach waypoints keep a smaller distance\<close>

lemma round_error: "hypot (v - js_round v) (u - js_round u) < 1"
proof -
  have a: "\<bar>v - js_round v\<bar> \<le> 1 / 2" and b: "\<bar>u - js_round u\<bar> \<le> 1 / 2"
    by (rule js_round_near)+
  have "(v - js_round v) * (v - js_round v) \<le> (1 / 2) * (1 / 2)"
    using a by (intro abs_le_square_iff [THEN iffD1, unfolded power2_eq_square]) simp
  moreover have "(u - js_round u) * (u - js_round u) \<le> (1 / 2) * (1 / 2)"
    using b by (intro abs_le_square_iff [THEN iffD1, unfolded power2_eq_square]) simp
  ultimately show ?thesis by (simp add: hypot_less_iff)
qed

lemma approach_far:
  assumes "\<not> hypot (ax - wx e) (ay - wy e) < 15"
  shows "14 < hypot (wx e - js_round ax) (wy e - js_round ay)"
proof -
  have "hypot (ax - wx e) (ay - wy e) = hypot (wx e - ax) (wy e - ay)"
    by (rule hypot_swap)
  also have "\<dots> = hypot ((wx e - js_round ax) + (js_round ax - ax)) ((wy e - js_round ay) + (js_round ay - ay))"
    by simp
  also have "\<dots> \<le> hypot (wx e - js_round ax) (wy e - js_round ay)
                  + hypot (js_round ax - ax) (js_round ay - ay)"
    by (rule hypot_triangle)
  also have "hypot (js_round ax - ax) (js_round ay - ay) = hypot (ax - js_round ax) (ay - js_round ay)"
    by (rule hypot_swap)
  finally have "hypot (ax - wx e) (ay - wy e)
      \<le> hypot (wx e - js_round ax) (wy e - js_round ay) + hypot (ax - js_round ax) (ay - js_round ay)" .
  with assms round_error [of ax ay] show ?thesis by linarith
qed

lemma pushApproach_spaced:
  assumes s: "spaced (rn_points net)" and w: "wantsApproach rzs net i c"
  shows "spaced (rn_points (pushApproach i c net))"
  unfolding rn_points_pushApproach
proof (rule spaced_snoc [OF s])
  let ?a = "approachPosition (rn_points net ! i) (rn_points net ! c)"
  fix e assume e: "e \<in> set (rn_points net)"
  from w have "\<not> tooClose ?a (rn_points net)"
    by (simp add: wantsApproach_def Let_def split: if_splits)
  with e have "\<not> hypot (fst ?a - wx e) (snd ?a - wy e) < 15"
    by (auto simp: tooClose_def list_ex_iff)
  then have "14 < hypot (wx e - js_round (fst ?a)) (wy e - js_round (snd ?a))"
    by (rule approach_far)
  then show "(\<not> isApproach (noMetadata\<lparr>wid := length (rn_points net), wx := js_round (fst ?a),
                  wy := js_round (snd ?a), isApproach := True, parentIntersection := Some i\<rparr>) \<longrightarrow>
              MIN_POINT_DISTANCE \<le> waypointDistance e (noMetadata\<lparr>wid := length (rn_points net),
                  wx := js_round (fst ?a), wy := js_round (snd ?a), isApproach := True,
                  parentIntersection := Some i\<rparr>)) \<and>
             14 < waypointDistance e (noMetadata\<lparr>wid := length (rn_points net),
                  wx := js_round (fst ?a), wy := js_round (snd ?a), isApproach := True,
                  parentIntersection := Some i\<rparr>)"
    by (simp add: waypointDistance_def)
qed

lemma enhanceLoop_spaced:
  "spaced (rn_points net) \<Longrightarrow> spaced (rn_points (snd (enhanceLoop rzs idx k net)))"
proof (induction rzs idx k net rule: enhanceLoop.induct)
  case (1 rzs idx k net)
  let ?c = "connections net ! idx ! k"
  show ?case
  proof (cases "k < length (connections net ! idx) \<and> ?c < length (rn_points net)")
    case False
    with 1(3) show ?thesis by (subst enhanceLoop.simps) auto
  next
    case inrange: True
    show ?thesis
    proof (cases "wantsApproach rzs net idx ?c")
      case False
      from 1(2) [OF _ _ False 1(3)] inrange
      have "spaced (rn_points (snd (enhanceLoop rzs idx (k + 1) net)))" by simp
      with inrange False show ?thesis by (subst enhanceLoop.simps) simp
    next
      case want: True
      let ?p = "pushApproach idx ?c net"
      have sp: "spaced (rn_points ?p)" by (rule pushApproach_spaced [OF 1(3) want])
      show ?thesis
      proof (cases "?c < length (connections ?p)")
        case False
        with inrange want sp show ?thesis by (subst enhanceLoop.simps) simp
      next
        case True
        have "spaced (rn_points (linkApproach ?c ?p))"
          using sp by (simp add: rn_points_linkApproach)
        from 1(1) [OF _ _ want _ this] inrange True
        have "spaced (rn_points (snd (enhanceLoop rzs idx (k + 1) (linkApproach ?c ?p))))"
          by simp
        with inrange want True show ?thesis by (subst enhanceLoop.simps) simp
      qed
    qed
  qed
qed

lemma enhanceIntersection_spaced:
  "spaced (rn_points net) \<Longrightarrow> spaced (rn_points (snd (enhanceIntersection rzs idx net)))"
  by (simp add: enhanceIntersection_def enhanceLoop_spaced)

lemma markIntersection_spaced:
  assumes "spaced (rn_points net)"
  shows "spaced (rn_points (markIntersection i net))"
proof -
  let ?pts = "rn_points net" and ?pts' = "rn_points (markIntersection i net)"
  have same: "wx (?pts' ! k) = wx (?pts ! k) \<and> wy (?pts' ! k) = wy (?pts ! k) \<and>
        isApproach (?pts' ! k) = isApproach (?pts ! k)"
    if "k < length ?pts" for k
    using that by (cases "k = i") (simp_all add: markIntersection_def)
  have len: "length ?pts' = length ?pts"
    by (simp add: markIntersection_def)
  show ?thesis
    unfolding spaced_def
  proof (intro allI impI)
    fix a b assume ab: "a < b \<and> b < length ?pts'"
    then have a: "a < length ?pts" and b: "b < length ?pts" using len by simp_all
    have d: "waypointDistance (?pts' ! a) (?pts' ! b) = waypointDistance (?pts ! a) (?pts ! b)"
      using same [OF a] same [OF b] by (simp add: waypointDistance_def)
    from assms ab len
    have "(\<not> isApproach (?pts ! b) \<longrightarrow> MIN_POINT_DISTANCE \<le> waypointDistance (?pts ! a) (?pts ! b)) \<and>
          14 < waypointDistance (?pts ! a) (?pts ! b)"
      unfolding spaced_def by simp
    then show "(\<not> isApproach (?pts' ! b) \<longrightarrow> MIN_POINT_DISTANCE \<le> waypointDistance (?pts' ! a) (?pts' ! b)) \<and>
          14 < waypointDistance (?pts' ! a) (?pts' ! b)"
      unfolding d using same [OF b] by simp
  qed
qed

lemma identifyLoop_spaced:
  "spaced (rn_points net) \<Longrightarrow> spaced (rn_points (snd (identifyLoop rzs i net)))"
proof (induction rzs i net rule: identifyLoop.induct)
  case (1 rzs i net)
  show ?case
  proof (cases "i < length (rn_points net) \<and> i < length (connections net)")
    case False
    with 1(3) show ?thesis by (subst identifyLoop.simps) auto
  next
    case inrange: True
    show ?thesis
    proof (cases "length (connections net ! i) \<ge> 3")
      case False
      from 1(2) [OF _ _ False 1(3)] inrange
      have "spaced (rn_points (snd (identifyLoop rzs (i + 1) net)))" by simp
      with inrange False show ?thesis by (subst identifyLoop.simps) simp
    next
      case True
      obtain e net' where res: "enhanceIntersection rzs i (markIntersection i net) = (e, net')"
        by (cases "enhanceIntersection rzs i (markIntersection i net)")
      have s': "spaced (rn_points net')"
        using enhanceIntersection_spaced [OF markIntersection_spaced [OF 1(3)], of rzs i i] res
        by simp
      show ?thesis
      proof (cases e)
        case None
        from 1(1) [OF _ _ True _ _ s'] inrange res None
        have "spaced (rn_points (snd (identifyLoop rzs (i + 1) net')))" by simp
        with inrange True res None show ?thesis by (subst identifyLoop.simps) simp
      next
        case (Some err)
        with inrange True res s' show ?thesis by (subst identifyLoop.simps) simp
      qed
    qed
  qed
qed

text \<open>The pairwise pass and the sorting pass leave the waypoints alone.\<close>

lemma forEach_snd_preserves:
  assumes "\<And>a s. Q s \<Longrightarrow> Q (snd (f a s))" and "Q s"
  shows "Q (snd (forEach f xs s))"
  using assms(2)
proof (induction xs arbitrary: s)
  case Nil
  then show ?case by simp
next
  case (Cons a xs)
  obtain e s' where r: "f a s = (e, s')" by (cases "f a s")
  with assms(1) [OF Cons.prems, of a] have q: "Q s'" by simp
  show ?case
  proof (cases e)
    case None
    with r Cons.IH [OF q] show ?thesis by simp
  next
    case (Some err)
    with r q show ?thesis by simp
  qed
qed

lemma connectPair_points: "rn_points (snd (connectPair rzs ij net)) = rn_points net"
  by (simp add: connectPair_def Let_def)

lemma optimizeOne_points: "rn_points (snd (optimizeOne i net)) = rn_points net"
  by (simp add: optimizeOne_def Let_def)

lemma connectNearbyWaypoints_spaced:
  assumes "spaced (rn_points net)"
  shows "spaced (rn_points (snd (connectNearbyWaypoints rzs net)))"
proof -
  obtain e1 n1 where r1:
    "forEach (connectPair rzs) (waypointPairs (length (rn_points net))) net = (e1, n1)"
    by (cases "forEach (connectPair rzs) (waypointPairs (length (rn_points net))) net")
  have "spaced (rn_points (snd (forEach (connectPair rzs)
          (waypointPairs (length (rn_points net))) net)))"
    by (rule forEach_snd_preserves [where Q = "\<lambda>s. spaced (rn_points s)"])
       (simp_all add: connectPair_points assms)
  with r1 have s1: "spaced (rn_points n1)" by simp
  show ?thesis
  proof (cases e1)
    case (Some err)
    with r1 s1 show ?thesis by (simp add: connectNearbyWaypoints_def)
  next
    case None
    obtain e2 n2 where r2: "identifyLoop rzs 0 n1 = (e2, n2)"
      by (cases "identifyLoop rzs 0 n1")
    with identifyLoop_spaced [OF s1, of rzs 0] have s2: "spaced (rn_points n2)" by simp
    show ?thesis
    proof (cases e2)
      case (Some err)
      with r1 None r2 s2 show ?thesis
        by (simp add: connectNearbyWaypoints_def identifyIntersections_def)
    next
      case n: None
      have "spaced (rn_points (snd (forEach optimizeOne [0 ..< length (rn_points n2)] n2)))"
        by (rule forEach_snd_preserves [where Q = "\<lambda>s. spaced (rn_points s)"])
           (simp_all add: optimizeOne_points s2)
      with r1 None r2 n show ?thesis
        by (simp add: connectNearbyWaypoints_def identifyIntersections_def
            optimizeIntersectionConnections_def)
    qed
  qed
qed

lemma rebuildSteps_spaced: "spaced (rn_points (roadNetwork (snd (rebuildSteps g))))"
proof -
  let ?net0 = "(roadNetwork g)\<lparr>rn_points := [], connections := [], edgePoints := [],
                                zoneEntries := (\<lambda>_. None)\<rparr>"
  let ?st = "fold (extractRoadCenterline (roadZones g)) (roadZones g) (?net0, 0)"
  obtain e n1 where r: "connectNearbyWaypoints (roadZones g) (fst ?st) = (e, n1)"
    by (cases "connectNearbyWaypoints (roadZones g) (fst ?st)")
  have "spaced (rn_points (fst ?st))" by (rule extraction_spaced)
  then have "spaced (rn_points (snd (connectNearbyWaypoints (roadZones g) (fst ?st))))"
    by (rule connectNearbyWaypoints_spaced)
  with r have s1: "spaced (rn_points n1)" by simp
  show ?thesis
  proof (cases e)
    case None
    with r s1 show ?thesis
      by (simp add: rebuildSteps_def Let_def findZoneEntryPoints_connections
          identifyEdgePoints_def)
  next
    case (Some err)
    with r s1 show ?thesis by (simp add: rebuildSteps_def Let_def)
  qed
qed

lemma buildRoadNetwork_spaced: "spaced (rn_points (roadNetwork (buildRoadNetwork g)))"
proof -
  obtain e g' where r: "rebuildSteps g = (e, g')" by (cases "rebuildSteps g")
  with rebuildSteps_spaced [of g] have "spaced (rn_points (roadNetwork g'))" by simp
  with r show ?thesis
    by (cases e) (simp_all add: buildRoadNetwork_def buildRoadNetworkWith_def)
qed

section \<open>The network of a rebuild, before the adjacency lists are sorted\<close>

definition extracted :: "'l game \<Rightarrow> build" where
  "extracted g = fold (extractRoadCenterline (roadZones g)) (roadZones g)
     ((roadNetwork g)\<lparr>rn_points := [], connections := [], edgePoints := [],
                      zoneEntries := (\<lambda>_. None)\<rparr>, 0)"

definition waypointGraph :: "'l game \<Rightarrow> roadNetwork" where
  "waypointGraph g =
     snd (identifyIntersections (roadZones g)
       (snd (forEach (connectPair (roadZones g))
               (waypointPairs (length (rn_points (fst (extracted g))))) (fst (extracted g)))))"

lemma optimizeOne_edges:
  assumes s: "symmetricNet net" and i: "i < length (rn_points net)"
  shows "edges_of (connections (snd (optimizeOne i net))) = edges_of (connections net)"
proof (cases "isIntersection (rn_points net ! i)")
  case False
  then show ?thesis by (simp add: optimizeOne_def Let_def)
next
  case True
  from s have len: "length (connections net) = length (rn_points net)"
    unfolding symmetricNet_def by blast
  with i have ic: "i < length (connections net)" by simp
  have inr: "\<not> list_ex (\<lambda>a. \<not> a < length (rn_points net)) (connections net ! i)"
    using symmetricNet_edge(1) [OF s ic] len by (auto simp: list_ex_iff)
  from True ic inr show ?thesis
    by (simp add: optimizeOne_def Let_def edges_of_set_eq)
qed

lemma optimize_edges:
  assumes "symmetricNet net"
  shows "edges_of (connections (snd (optimizeIntersectionConnections net)))
           = edges_of (connections net)"
proof -
  let ?I = "\<lambda>s. symmetricNet s \<and> rn_points s = rn_points net \<and>
                edges_of (connections s) = edges_of (connections net)"
  have "fst (forEach optimizeOne [0 ..< length (rn_points net)] net) = None \<and>
        ?I (snd (forEach optimizeOne [0 ..< length (rn_points net)] net))"
  proof (rule forEach_invariant)
    fix a s
    assume "a \<in> set [0 ..< length (rn_points net)]" and I: "?I s"
    then have "a < length (rn_points s)" by simp
    with I optimizeOne_symmetric [of s a] optimizeOne_edges [of s a]
    show "fst (optimizeOne a s) = None \<and> ?I (snd (optimizeOne a s))" by simp
  qed (simp add: assms)
  then show ?thesis by (simp add: optimizeIntersectionConnections_def)
qed

lemma buildRoadNetwork_graph:
  "rn_points (roadNetwork (buildRoadNetwork g)) = rn_points (waypointGraph g) \<and>
   edges_of (connections (roadNetwork (buildRoadNetwork g)))
     = edges_of (connections (waypointGraph g))"
proof -
  let ?st = "extracted g"
  have "unconnected ((roadNetwork g)\<lparr>rn_points := [], connections := [], edgePoints := [],
                      zoneEntries := (\<lambda>_. None)\<rparr>, 0 :: nat)"
    by (simp add: unconnected_def)
  then have "unconnected ?st"
    unfolding extracted_def
    by (rule extraction_preserves [where P = unconnected, rotated])
       (rule addWaypoint_unconnected)
  then have s: "symmetricNet (fst ?st)" by (rule unconnected_symmetric)
  obtain e1 n1 where r1: "forEach (connectPair (roadZones g))
      (waypointPairs (length (rn_points (fst ?st)))) (fst ?st) = (e1, n1)"
    by (cases "forEach (connectPair (roadZones g))
      (waypointPairs (length (rn_points (fst ?st)))) (fst ?st)")
  with connect_pass_symmetric [OF s, of "roadZones g"]
  have e1: "e1 = None" and s1: "symmetricNet n1" by simp_all
  obtain e2 n2 where r2: "identifyLoop (roadZones g) 0 n1 = (e2, n2)"
    by (cases "identifyLoop (roadZones g) 0 n1")
  with identifyLoop_symmetric [OF s1, of "roadZones g" 0]
  have e2: "e2 = None" and s2: "symmetricNet n2" by simp_all
  have wg: "waypointGraph g = n2"
    by (simp add: waypointGraph_def identifyIntersections_def r1 r2)
  obtain e3 n3 where r3: "optimizeIntersectionConnections n2 = (e3, n3)"
    by (cases "optimizeIntersectionConnections n2")
  with optimize_symmetric [OF s2] optimize_edges [OF s2]
  have e3: "e3 = None" and p3: "rn_points n3 = rn_points n2"
    and ed3: "edges_of (connections n3) = edges_of (connections n2)" by simp_all
  have c: "connectNearbyWaypoints (roadZones g) (fst ?st) = (None, n3)"
    by (simp add: connectNearbyWaypoints_def identifyIntersections_def r1 e1 r2 e2 r3 e3)
  have "roadNetwork (buildRoadNetwork g)
          = (findZoneEntryPoints (residentialZones g)
               (identifyEdgePoints (worldWidth g) (worldHeight g) n3))\<lparr>needsRebuild := False\<rparr>"
    using c by (simp add: buildRoadNetwork_def buildRoadNetworkWith_def rebuildSteps_def
        extracted_def Let_def)
  then show ?thesis
    by (simp add: wg p3 ed3 findZoneEntryPoints_connections identifyEdgePoints_def)
qed

section \<open>A junction\<close>

text \<open>
  Five road strokes of the default brush 50, each close enough to an earlier one to be
  merged into one zone: a centre \<open>(100, 100)\<close> with four waypoints within the connection
  radius, one of them, \<open>(160, 100)\<close>, more than 50 away.
\<close>

lemma less_hypot_iff: "0 \<le> r \<Longrightarrow> r < hypot a b \<longleftrightarrow> r * r < a * a + b * b"
  using hypot_le_iff [of r a b] by (simp add: not_le [symmetric])

lemma le_hypot_iff: "0 \<le> r \<Longrightarrow> r \<le> hypot a b \<longleftrightarrow> r * r \<le> a * a + b * b"
  using hypot_less_iff [of r a b] by (simp add: not_less [symmetric])

lemma hypot_less_hypot: "hypot a b < hypot c d \<longleftrightarrow> a * a + b * b < c * c + d * d"
  by (simp add: hypot_def)

lemmas hypot_eval = hypot_less_iff hypot_le_iff less_hypot_iff le_hypot_iff hypot_less_hypot

definition junction_circles :: "circle list" where
  "junction_circles =
     [\<lparr>cx = 100, cy = 100, radius = 50\<rparr>, \<lparr>cx = 100, cy = 120, radius = 50\<rparr>,
      \<lparr>cx = 100, cy = 140, radius = 50\<rparr>, \<lparr>cx = 125, cy = 117, radius = 50\<rparr>,
      \<lparr>cx = 160, cy = 100, radius = 50\<rparr>]"

definition junction_world :: "unit game" where
  "junction_world = (world_example (Some ''road''))\<lparr>residentialZones := [],
     roadZones := [\<lparr>ztype = road, points = junction_circles\<rparr>]\<rparr>"

lemma junction_segments:
  "segmentsLoop junction_circles [0 ..< length junction_circles] {} [] = [junction_circles]"
  by (simp add: junction_circles_def traceRoadSegment_def CONNECTION_RADIUS_def hypot_eval
      upt_rec)

lemma junction_sorted: "sortPointsForFlow junction_circles = junction_circles"
  by (simp add: junction_circles_def sortPointsForFlow_def sortLoop.simps hypot_eval Let_def)

definition centerPoint :: "nat \<Rightarrow> real \<Rightarrow> real \<Rightarrow> waypoint" where
  "centerPoint i x y = \<lparr>wid = i, wx = x, wy = y, roadRadius = Some 50, segmentIndex = Some (real i),
     isRoadCenter = True, isIntermediate = False, isIntersection = False, isApproach = False,
     parentIntersection = None\<rparr>"

definition junction_points :: "waypoint list" where
  "junction_points = [centerPoint 0 100 100, centerPoint 1 100 120, centerPoint 2 100 140,
     centerPoint 3 125 117, centerPoint 4 160 100]"

lemma junction_extracted:
  "fold (extractRoadCenterline (roadZones junction_world)) (roadZones junction_world)
     (emptyNetwork, 0)
   = (emptyNetwork\<lparr>rn_points := junction_points, connections := [[], [], [], [], []]\<rparr>, 5)"
proof -
  have "waypointsLoop [\<lparr>ztype = road, points = junction_circles\<rparr>] 0 junction_circles
          (emptyNetwork, 0)
        = (emptyNetwork\<lparr>rn_points := junction_points, connections := [[], [], [], [], []]\<rparr>, 5)"
    by (simp add: junction_circles_def junction_points_def centerPoint_def emptyNetwork_def
        addWaypoint_def js_round_def noMetadata_def MIN_POINT_DISTANCE_def hypot_eval Let_def)
  then show ?thesis
    by (simp add: junction_world_def extractRoadCenterline_def createWaypointsForSegment_def
        junction_segments junction_sorted)
       (simp add: junction_circles_def)
qed

lemma junction_connected:
  "forEach (connectPair (roadZones junction_world)) (waypointPairs 5)
     (emptyNetwork\<lparr>rn_points := junction_points, connections := [[], [], [], [], []]\<rparr>)
   = (None, emptyNetwork\<lparr>rn_points := junction_points,
        connections := [[1, 2, 3, 4], [0, 2, 3], [0, 1, 3], [0, 1, 2, 4], [0, 3]]\<rparr>)"
  by (simp add: waypointPairs_def upt_rec junction_world_def junction_circles_def
      junction_points_def centerPoint_def emptyNetwork_def connectPair_def
      hasRoadPathBetween_def isOnRoad_def CONNECTION_RADIUS_def hypot_eval Let_def)

definition junction_final_points :: "waypoint list" where
  "junction_final_points =
     map (\<lambda>w. w\<lparr>isIntersection := True\<rparr>) junction_points @
     [noMetadata\<lparr>wid := 5, wx := 125, wy := 100, isApproach := True,
                 parentIntersection := Some 0\<rparr>]"

lemma junction_identified:
  "identifyLoop (roadZones junction_world) 0
     (emptyNetwork\<lparr>rn_points := junction_points,
        connections := [[1, 2, 3, 4], [0, 2, 3], [0, 1, 3], [0, 1, 2, 4], [0, 3]]\<rparr>)
   = (None, emptyNetwork\<lparr>rn_points := junction_final_points,
        connections := [[1, 2, 3, 4, 5], [0, 2, 3], [0, 1, 3], [0, 1, 2, 4], [0, 3, 5], [0, 4]]\<rparr>)"
  by (simp add: identifyLoop.simps enhanceIntersection_def enhanceLoop.simps markIntersection_def
      wantsApproach_def approachPosition_def tooClose_def pushApproach_def linkApproach_def
      junction_world_def junction_circles_def junction_points_def junction_final_points_def
      centerPoint_def emptyNetwork_def noMetadata_def isOnRoad_def js_round_def
      hypot_eval hypot_zero_right Let_def)

lemma junction_graph:
  "waypointGraph junction_world
   = emptyNetwork\<lparr>rn_points := junction_final_points,
        connections := [[1, 2, 3, 4, 5], [0, 2, 3], [0, 1, 3], [0, 1, 2, 4], [0, 3, 5], [0, 4]]\<rparr>"
proof -
  have net0: "(roadNetwork junction_world)\<lparr>rn_points := [], connections := [], edgePoints := [],
                 zoneEntries := (\<lambda>_. None)\<rparr> = emptyNetwork"
    by (simp add: junction_world_def world_example_def emptyNetwork_def)
  have ex: "extracted junction_world
      = (emptyNetwork\<lparr>rn_points := junction_points, connections := [[], [], [], [], []]\<rparr>, 5)"
    unfolding extracted_def net0 by (rule junction_extracted)
  have len: "length junction_points = 5" by (simp add: junction_points_def)
  have l: "length (rn_points (fst (extracted junction_world))) = 5"
    by (simp add: ex len)
  have f: "fst (extracted junction_world)
      = emptyNetwork\<lparr>rn_points := junction_points, connections := [[], [], [], [], []]\<rparr>"
    by (simp add: ex)
  have c: "forEach (connectPair (roadZones junction_world))
             (waypointPairs (length (rn_points (fst (extracted junction_world)))))
             (fst (extracted junction_world))
      = (None, emptyNetwork\<lparr>rn_points := junction_points,
           connections := [[1, 2, 3, 4], [0, 2, 3], [0, 1, 3], [0, 1, 2, 4], [0, 3]]\<rparr>)"
    unfolding l unfolding f by (rule junction_connected)
  show ?thesis
    unfolding waypointGraph_def c snd_conv identifyIntersections_def junction_identified
    by (rule refl)
qed

lemma junction_rebuilt:
  "rn_points (roadNetwork (buildRoadNetwork junction_world)) = junction_final_points"
  "edges_of (connections (roadNetwork (buildRoadNetwork junction_world)))
     = edges_of [[1, 2, 3, 4, 5], [0, 2, 3], [0, 1, 3], [0, 1, 2, 4], [0, 3, 5], [0, 4]]"
  using buildRoadNetwork_graph [of junction_world] by (simp_all add: junction_graph)

text \<open>
  Claim C3 (amended). In the network of every rebuild, waypoints made by \<open>addWaypoint\<close>
  (road centres and intermediate waypoints, that is, all but the approach waypoints)
  are pairwise at least \<open>MIN_POINT_DISTANCE\<close> = 20 apart. An approach waypoint of
  \<open>enhanceIntersection\<close> is only kept 15 units, before rounding, from the waypoints
  present when it is added, so any two waypoints are more than 14 apart.
\<close>

theorem waypoints_spaced:
  assumes "i < j" and "j < length (rn_points (roadNetwork (buildRoadNetwork g)))"
  shows "(\<not> isApproach (rn_points (roadNetwork (buildRoadNetwork g)) ! i) \<and>
          \<not> isApproach (rn_points (roadNetwork (buildRoadNetwork g)) ! j) \<longrightarrow>
            MIN_POINT_DISTANCE
              \<le> waypointDistance (rn_points (roadNetwork (buildRoadNetwork g)) ! i)
                                  (rn_points (roadNetwork (buildRoadNetwork g)) ! j)) \<and>
         14 < waypointDistance (rn_points (roadNetwork (buildRoadNetwork g)) ! i)
                               (rn_points (roadNetwork (buildRoadNetwork g)) ! j)"
  using buildRoadNetwork_spaced [of g] assms unfolding spaced_def by blast

lemma junction_close_pair:
  "length junction_final_points = 6"
  "waypointDistance (junction_final_points ! 3) (junction_final_points ! 5) = 17"
  "isApproach (junction_final_points ! 5)"
  "\<not> isApproach (junction_final_points ! 3)"
  by (simp_all add: junction_final_points_def junction_points_def centerPoint_def
      noMetadata_def waypointDistance_def hypot_zero_left)

theorem waypoints_spaced_witness:
  "(3::nat) < 5 \<and>
   5 < length (rn_points (roadNetwork (buildRoadNetwork junction_world))) \<and>
   isApproach (rn_points (roadNetwork (buildRoadNetwork junction_world)) ! 5) \<and>
   14 < waypointDistance (rn_points (roadNetwork (buildRoadNetwork junction_world)) ! 3)
                         (rn_points (roadNetwork (buildRoadNetwork junction_world)) ! 5)"
proof -
  have h1: "(3::nat) < 5" by simp
  have h2: "5 < length (rn_points (roadNetwork (buildRoadNetwork junction_world)))"
    by (simp add: junction_rebuilt(1) junction_close_pair(1))
  from waypoints_spaced [OF h1 h2] h1 h2 show ?thesis
    by (simp add: junction_rebuilt(1) junction_close_pair)
qed

text \<open>
  At the junction the approach waypoint \<open>(125, 100)\<close> of the centre is put 17 units from
  the road-centre waypoint \<open>(125, 117)\<close>: closer than \<open>MIN_POINT_DISTANCE\<close>.
\<close>

theorem approach_waypoint_counterexample:
  "length (rn_points (roadNetwork (buildRoadNetwork junction_world))) = 6 \<and>
   waypointDistance (rn_points (roadNetwork (buildRoadNetwork junction_world)) ! 3)
                    (rn_points (roadNetwork (buildRoadNetwork junction_world)) ! 5) = 17 \<and>
   (17::real) < MIN_POINT_DISTANCE"
  by (simp add: junction_rebuilt(1) junction_close_pair MIN_POINT_DISTANCE_def)

text \<open>
  Claim C4. After every rebuild, with the pairwise pass and the approach waypoints, the
  adjacency lists are as many as the waypoints and symmetric: for waypoint indices
  \<open>i\<close> and \<open>j\<close>, \<open>j\<close> is in \<open>connections[i]\<close> exactly when \<open>i\<close> is in \<open>connections[j]\<close>.
\<close>

theorem adjacency_symmetric:
  assumes "i < length (rn_points (roadNetwork (buildRoadNetwork g)))"
    and "j < length (rn_points (roadNetwork (buildRoadNetwork g)))"
  shows "length (connections (roadNetwork (buildRoadNetwork g)))
           = length (rn_points (roadNetwork (buildRoadNetwork g))) \<and>
         (j \<in> set (connections (roadNetwork (buildRoadNetwork g)) ! i) \<longleftrightarrow>
          i \<in> set (connections (roadNetwork (buildRoadNetwork g)) ! j))"
proof -
  let ?net = "roadNetwork (buildRoadNetwork g)"
  have s: "symmetricNet ?net" by (rule buildRoadNetwork_symmetric)
  then have len: "length (connections ?net) = length (rn_points ?net)"
    unfolding symmetricNet_def by blast
  with assms have i: "i < length (connections ?net)" and j: "j < length (connections ?net)"
    by simp_all
  from symmetricNet_edge(2) [OF s i] symmetricNet_edge(2) [OF s j] len show ?thesis by blast
qed

theorem adjacency_symmetric_witness:
  "0 < length (rn_points (roadNetwork (buildRoadNetwork junction_world))) \<and>
   5 < length (rn_points (roadNetwork (buildRoadNetwork junction_world))) \<and>
   5 \<in> set (connections (roadNetwork (buildRoadNetwork junction_world)) ! 0) \<and>
   0 \<in> set (connections (roadNetwork (buildRoadNetwork junction_world)) ! 5)"
proof -
  let ?net = "roadNetwork (buildRoadNetwork junction_world)"
  have h1: "0 < length (rn_points ?net)" and h2: "5 < length (rn_points ?net)"
    by (simp_all add: junction_rebuilt(1) junction_close_pair(1))
  have "(0, 5) \<in> edges_of [[1, 2, 3, 4, 5], [0, 2, 3], [0, 1, 3], [0, 1, 2, 4], [0, 3, 5], [0, 4 :: nat]]"
    by (simp add: edges_of_def)
  then have "(0, 5) \<in> edges_of (connections ?net)"
    by (simp only: junction_rebuilt(2))
  then have e: "5 \<in> set (connections ?net ! 0)" by (simp add: edges_of_def)
  from adjacency_symmetric [OF h1 h2] e h1 h2 show ?thesis by blast
qed

section \<open>Connectivity and spawning\<close>

text \<open>The sample coordinates \<open>0, 50, 100, ...\<close> up to and including \<open>limit\<close>.\<close>

definition edgeSteps :: "real \<Rightarrow> real list" where
  "edgeSteps limit = map (\<lambda>n. real n * 50) [0 ..< nat (\<lfloor>limit / 50\<rfloor> + 1)]"

text \<open>
  \<open>findRoadConnectionsAtEdge\<close>: the on-road samples of the top, bottom, left and
  right edge of the world, in that order.
\<close>

definition findRoadConnectionsAtEdge :: "'l game \<Rightarrow> pt list" where
  "findRoadConnectionsAtEdge g =
     (let horizontal = (\<lambda>y0. map (\<lambda>x. \<lparr>px = x, py = y0\<rparr>)
                          (filter (\<lambda>x. isOnRoad (roadZones g) x y0) (edgeSteps (worldWidth g))));
          vertical = (\<lambda>x0. map (\<lambda>y. \<lparr>px = x0, py = y\<rparr>)
                          (filter (\<lambda>y. isOnRoad (roadZones g) x0 y) (edgeSteps (worldHeight g))))
      in horizontal 0 @ horizontal (worldHeight g) @ vertical 0 @ vertical (worldWidth g))"

definition checkZoneConnection :: "'l game \<Rightarrow> nat \<Rightarrow> bool" where
  "checkZoneConnection g zoneIndex =
     (if zoneIndex \<ge> length (residentialZones g) then False
      else let z = residentialZones g ! zoneIndex;
               edgeConnections = findRoadConnectionsAtEdge g
           in if edgeConnections = [] then False
              else list_ex (\<lambda>startPoint. pathExistsToZone g startPoint z) edgeConnections)"

text \<open>
  \<open>findRandomEdgeConnection\<close>. An index outside the array yields \<open>undefined\<close>, which
  the callers treat like \<open>null\<close>.
\<close>

definition pick :: "'a list \<Rightarrow> real \<Rightarrow> 'a option" where
  "pick xs r = (let i = \<lfloor>r * real (length xs)\<rfloor>
                in if 0 \<le> i \<and> i < int (length xs) then Some (xs ! nat i) else None)"

definition waypointPt :: "waypoint \<Rightarrow> pt" where
  "waypointPt w = \<lparr>px = wx w, py = wy w\<rparr>"

definition findRandomEdgeConnection :: "'l game \<Rightarrow> (nat \<Rightarrow> real) \<Rightarrow> nat \<Rightarrow> pt option \<times> nat" where
  "findRandomEdgeConnection g rnd k =
     (if edgePoints (roadNetwork g) \<noteq> []
      then (case pick (edgePoints (roadNetwork g)) (rnd k) of
              None \<Rightarrow> (None, k + 1)
            | Some randomEdgeId \<Rightarrow>
                (if randomEdgeId < length (rn_points (roadNetwork g))
                 then (Some (waypointPt (rn_points (roadNetwork g) ! randomEdgeId)), k + 1)
                 else (None, k + 1)))
      else let edgeConnections = findRoadConnectionsAtEdge g
           in if edgeConnections = [] then (None, k)
              else (pick edgeConnections (rnd k), k + 1))"

text \<open>\<open>findClosestNetworkPoint\<close>: \<open>-1\<close> on an empty network.\<close>

fun closestPointLoop :: "real \<Rightarrow> real \<Rightarrow> waypoint list \<Rightarrow> nat \<Rightarrow> int \<Rightarrow> real option \<Rightarrow> int" where
  "closestPointLoop x y [] i closestId closestDistance = closestId"
| "closestPointLoop x y (p # ps) i closestId closestDistance =
     (let distance = hypot (x - wx p) (y - wy p)
      in if (case closestDistance of None \<Rightarrow> True | Some c \<Rightarrow> distance < c)
         then closestPointLoop x y ps (i + 1) (int i) (Some distance)
         else closestPointLoop x y ps (i + 1) closestId closestDistance)"

definition findClosestNetworkPoint :: "'l game \<Rightarrow> real \<Rightarrow> real \<Rightarrow> int" where
  "findClosestNetworkPoint g x y = closestPointLoop x y (rn_points (roadNetwork g)) 0 (- 1) None"

text \<open>
  \<open>findNetworkPathBetweenNodes\<close>: breadth-first search over the adjacency lists; a
  waypoint without a list has no neighbours.
\<close>

definition neighborsOf :: "nat list list \<Rightarrow> nat \<Rightarrow> nat list" where
  "neighborsOf cs pointId = (if pointId < length cs then cs ! pointId else [])"

lemma neighborsOf_subset: "set (neighborsOf cs pointId) \<subseteq> \<Union> (set ` set cs)"
proof (cases "pointId < length cs")
  case True
  then have "cs ! pointId \<in> set cs" by (rule nth_mem)
  then have "set (cs ! pointId) \<subseteq> \<Union> (set ` set cs)" by blast
  with True show ?thesis by (simp add: neighborsOf_def)
next
  case False
  then show ?thesis by (simp add: neighborsOf_def)
qed

function networkPathLoop ::
  "nat list list \<Rightarrow> nat \<Rightarrow> nat set \<Rightarrow> (nat \<times> nat list) list \<Rightarrow> nat list option" where
  "networkPathLoop cs targetPointId visited [] = None"
| "networkPathLoop cs targetPointId visited (current # queue) =
     (if fst current \<in> visited then networkPathLoop cs targetPointId visited queue
      else if fst current = targetPointId then Some (snd current)
      else networkPathLoop cs targetPointId (insert (fst current) visited)
             (queue @ map (\<lambda>neighborId. (neighborId, snd current @ [neighborId]))
                        (filter (\<lambda>neighborId. neighborId \<notin> insert (fst current) visited)
                           (neighborsOf cs (fst current)))))"
  by pat_completeness auto
termination
proof (relation "measures
    [\<lambda>(cs, t, visited, queue). card ((\<Union> (set ` set cs) \<union> fst ` set queue) - visited),
     \<lambda>(cs, t, visited, queue). length queue]", goal_cases)
  case 1
  show ?case by simp
next
  case (2 cs t visited current queue)
  have "finite (\<Union> (set ` set cs))" by simp
  from search_card_le [OF this, of fst queue visited current]
  show ?case by auto
next
  case (3 cs t visited current queue)
  have f: "finite (\<Union> (set ` set cs))" by simp
  have "fst ` set (map (\<lambda>neighborId. (neighborId, snd current @ [neighborId]))
                     (filter (\<lambda>neighborId. neighborId \<notin> insert (fst current) visited)
                        (neighborsOf cs (fst current)))) \<subseteq> \<Union> (set ` set cs)"
    using neighborsOf_subset [of cs "fst current"] by auto
  from search_card_less [OF f this, of current visited queue] 3(1)
  show ?case by simp
qed

definition findNetworkPathBetweenNodes :: "'l game \<Rightarrow> nat \<Rightarrow> nat \<Rightarrow> pt list" where
  "findNetworkPathBetweenNodes g startPointId targetPointId =
     (if startPointId = targetPointId
      then [waypointPt (rn_points (roadNetwork g) ! startPointId)]
      else case networkPathLoop (connections (roadNetwork g)) targetPointId {}
                  [(startPointId, [startPointId])] of
             Some path \<Rightarrow> map (\<lambda>pointId. waypointPt (rn_points (roadNetwork g) ! pointId)) path
           | None \<Rightarrow> [])"

text \<open>
  The agent object built in the loop bodies of \<open>spawnAgentsForZone\<close> and
  \<open>updateAgentsForZone\<close>, which are the same up to where the object goes: the graph
  path from the node closest to the spawn point to the node closest to the settle
  position, or the grid path when that one is empty.
\<close>

definition planAgent :: "'l game \<Rightarrow> nat \<Rightarrow> zone \<Rightarrow> pt \<Rightarrow> pt \<Rightarrow> 'l agent" where
  "planAgent g zoneIndex z finalPos spawnPoint =
     (let closestNode = findClosestNetworkPoint g (px finalPos) (py finalPos);
          graphPath =
            (if rn_points (roadNetwork g) \<noteq> []
             then (let startPointId = findClosestNetworkPoint g (px spawnPoint) (py spawnPoint)
                   in if startPointId \<ge> 0 \<and> closestNode \<ge> 0
                      then findNetworkPathBetweenNodes g (nat startPointId) (nat closestNode)
                      else [])
             else []);
          path = (if graphPath = [] then findPathToZone g spawnPoint z else graphPath)
      in \<lparr>agent_x = px spawnPoint, agent_y = py spawnPoint, targetZoneIndex = zoneIndex,
          finalPosition = finalPos, closestNodeToFinalPosition = closestNode,
          pathToNode = path, pathToNodeIndex = 0, agent_phase = traveling_to_node,
          speed = 2, agent_radius = 10, lotPolygon = None\<rparr>)"

text \<open>
  The spawning loops; the first argument counts the rounds left of \<open>agentsToSpawn\<close>.
  The result is the exception thrown, if any, the game and the position on the tape.
  \<open>spawnAgentsForZone\<close> queues the agent and reserves its position with a stub;
  \<open>updateAgentsForZone\<close> makes it live at once.
\<close>

fun spawnLoop ::
  "nat \<Rightarrow> nat \<Rightarrow> zone \<Rightarrow> 'l occupant list \<Rightarrow> (nat \<Rightarrow> real) \<Rightarrow> 'l game \<Rightarrow> nat
     \<Rightarrow> error option \<times> 'l game \<times> nat" where
  "spawnLoop 0 zoneIndex z existingAgents rnd g k = (None, g, k)"
| "spawnLoop (Suc n) zoneIndex z existingAgents rnd g k =
     (case findFreePositionInZone z existingAgents rnd k of
        (Inl e, k1) \<Rightarrow> (Some e, g, k1)
      | (Inr None, k1) \<Rightarrow> (None, g, k1)
      | (Inr (Some finalPos), k1) \<Rightarrow>
          (case findRandomEdgeConnection g rnd k1 of
             (None, k2) \<Rightarrow> (None, g, k2)
           | (Some spawnPoint, k2) \<Rightarrow>
               spawnLoop n zoneIndex z (existingAgents @ [Reserved finalPos]) rnd
                 (g\<lparr>agentSpawnQueue := agentSpawnQueue g @
                       [planAgent g zoneIndex z finalPos spawnPoint]\<rparr>) k2))"

fun updateLoop ::
  "nat \<Rightarrow> nat \<Rightarrow> zone \<Rightarrow> 'l occupant list \<Rightarrow> (nat \<Rightarrow> real) \<Rightarrow> 'l game \<Rightarrow> nat
     \<Rightarrow> error option \<times> 'l game \<times> nat" where
  "updateLoop 0 zoneIndex z existingAgents rnd g k = (None, g, k)"
| "updateLoop (Suc n) zoneIndex z existingAgents rnd g k =
     (case findFreePositionInZone z existingAgents rnd k of
        (Inl e, k1) \<Rightarrow> (Some e, g, k1)
      | (Inr None, k1) \<Rightarrow> (None, g, k1)
      | (Inr (Some finalPos), k1) \<Rightarrow>
          (case findRandomEdgeConnection g rnd k1 of
             (None, k2) \<Rightarrow> (None, g, k2)
           | (Some spawnPoint, k2) \<Rightarrow>
               let a = planAgent g zoneIndex z finalPos spawnPoint
               in updateLoop n zoneIndex z (existingAgents @ [Live a]) rnd
                    (g\<lparr>agents := agents g @ [a]\<rparr>) k2))"

text \<open>
  Both functions count \<open>existingAgents\<close> in the live list \<open>this.agents\<close> only.
\<close>

definition agentsOfZone :: "'l game \<Rightarrow> nat \<Rightarrow> 'l agent list" where
  "agentsOfZone g zoneIndex = filter (\<lambda>a. targetZoneIndex a = zoneIndex) (agents g)"

definition spawnAgentsForZone ::
  "nat \<Rightarrow> (nat \<Rightarrow> real) \<Rightarrow> 'l game \<Rightarrow> nat \<Rightarrow> error option \<times> 'l game \<times> nat" where
  "spawnAgentsForZone zoneIndex rnd g k =
     (let z = residentialZones g ! zoneIndex;
          maxAgents = calculateMaxAgents z;
          existingAgents = agentsOfZone g zoneIndex;
          agentsToSpawn = maxAgents - int (length existingAgents)
      in spawnLoop (nat agentsToSpawn) zoneIndex z (map Live existingAgents) rnd g k)"

definition updateAgentsForZone ::
  "nat \<Rightarrow> (nat \<Rightarrow> real) \<Rightarrow> 'l game \<Rightarrow> nat \<Rightarrow> error option \<times> 'l game \<times> nat" where
  "updateAgentsForZone zoneIndex rnd g k =
     (let z = residentialZones g ! zoneIndex;
          maxAgents = calculateMaxAgents z;
          existingAgents = agentsOfZone g zoneIndex;
          agentsToSpawn = maxAgents - int (length existingAgents)
      in if agentsToSpawn > 0
         then updateLoop (nat agentsToSpawn) zoneIndex z (map Live existingAgents) rnd g k
         else (None, g, k))"

definition removeAgentsFromZone :: "nat \<Rightarrow> 'l game \<Rightarrow> 'l game" where
  "removeAgentsFromZone zoneIndex g =
     g\<lparr>agents := filter (\<lambda>a. targetZoneIndex a \<noteq> zoneIndex) (agents g)\<rparr>"

text \<open>
  \<open>updateAllConnections\<close>, one round per residential zone: the new status is stored,
  then a zone that became connected queues its agents, one that lost its connection
  loses its agents, and one that stays connected is topped up.
\<close>

definition updateConnection ::
  "(nat \<Rightarrow> real) \<Rightarrow> nat \<Rightarrow> 'l game \<times> nat \<Rightarrow> error option \<times> 'l game \<times> nat" where
  "updateConnection rnd i gk =
     (let g = fst gk; k = snd gk;
          wasConnected = (case zoneConnections g i of Some b \<Rightarrow> b | None \<Rightarrow> False);
          isConnected = checkZoneConnection g i;
          g1 = g\<lparr>zoneConnections := (zoneConnections g)(i \<mapsto> isConnected)\<rparr>
      in if \<not> wasConnected \<and> isConnected then spawnAgentsForZone i rnd g1 k
         else if wasConnected \<and> \<not> isConnected then (None, removeAgentsFromZone i g1, k)
         else if isConnected then updateAgentsForZone i rnd g1 k
         else (None, g1, k))"

fun connectionsLoop ::
  "(nat \<Rightarrow> real) \<Rightarrow> nat list \<Rightarrow> 'l game \<Rightarrow> nat \<Rightarrow> error option \<times> 'l game \<times> nat" where
  "connectionsLoop rnd [] g k = (None, g, k)"
| "connectionsLoop rnd (i # is) g k =
     (case updateConnection rnd i (g, k) of
        (None, g', k') \<Rightarrow> connectionsLoop rnd is g' k'
      | (Some e, g', k') \<Rightarrow> (Some e, g', k'))"

definition updateAllConnections ::
  "(nat \<Rightarrow> real) \<Rightarrow> 'l game \<Rightarrow> nat \<Rightarrow> error option \<times> 'l game \<times> nat" where
  "updateAllConnections rnd g k = connectionsLoop rnd [0 ..< length (residentialZones g)] g k"

text \<open>\<open>processAgentSpawnQueue\<close> at the time \<open>currentTime\<close> of \<open>performance.now()\<close>.\<close>

definition spawnDelay :: real where "spawnDelay = 1000"

definition processAgentSpawnQueue :: "real \<Rightarrow> 'l game \<Rightarrow> 'l game" where
  "processAgentSpawnQueue currentTime g =
     (if currentTime - lastSpawnTime g \<ge> spawnDelay \<and> agentSpawnQueue g \<noteq> []
      then g\<lparr>agents := agents g @ [hd (agentSpawnQueue g)],
             agentSpawnQueue := tl (agentSpawnQueue g),
             lastSpawnTime := currentTime\<rparr>
      else g)"

section \<open>A street at the world edge\<close>

text \<open>
  One road stroke on the left edge of the world and a residential zone of three
  merged strokes beside it, all of the default brush 50. The zone has capacity 2; the
  centres of its first and third circle are 110 apart.
\<close>

definition street_roads :: "zone list" where
  "street_roads = [\<lparr>ztype = road, points = [\<lparr>cx = 0, cy = 1000, radius = 50\<rparr>]\<rparr>]"

definition street_homes :: zone where
  "street_homes = \<lparr>ztype = residential,
     points = [\<lparr>cx = 75, cy = 1000, radius = 50\<rparr>, \<lparr>cx = 130, cy = 1000, radius = 50\<rparr>,
               \<lparr>cx = 185, cy = 1000, radius = 50\<rparr>]\<rparr>"

definition street_world :: "unit game" where
  "street_world = (world_example (Some ''residential''))\<lparr>
     residentialZones := [street_homes], roadZones := street_roads\<rparr>"

lemma street_total:
  "totalAreaLoop (Num 0) (points street_homes) = Num (6476658098170569 / 2 ^ 38)"
  by (simp only: street_homes_def zone.select_convs circle.select_convs totalAreaLoop.simps
      circleArea_50 area_sum_50 street_sum_2 street_sum_3)

lemma street_capacity: "calculateMaxAgents street_homes = 2"
  unfolding calculateMaxAgents_def calculateMaxAgentsValue_def Let_def street_total
    circleArea_50 PACKING_EFFICIENCY_value street_quotient street_product
    MAX_AGENTS_PER_ZONE_def
  by simp

lemma street_edge:
  assumes "roadZones g = street_roads" and "worldWidth g = 10000" and "worldHeight g = 10000"
  shows "findRoadConnectionsAtEdge g
           = [\<lparr>px = 0, py = 950\<rparr>, \<lparr>px = 0, py = 1000\<rparr>, \<lparr>px = 0, py = 1050\<rparr>]"
  by (simp add: findRoadConnectionsAtEdge_def assms street_roads_def edgeSteps_def isOnRoad_def
      hypot_eval upt_rec Let_def)

lemma street_connected:
  assumes "roadZones g = street_roads" and "worldWidth g = 10000" and "worldHeight g = 10000"
    and "residentialZones g = [street_homes]"
  shows "checkZoneConnection g 0"
  by (simp add: checkZoneConnection_def street_edge [OF assms(1,2,3)] assms pathExistsToZone_def
      street_homes_def street_roads_def isPointInZone_def isOnRoad_def admissible_def
      gridNeighbors_def cellKey_def PATHFINDING_STEP_SIZE_def hypot_eval Let_def)

definition street_network :: roadNetwork where
  "street_network = \<lparr>rn_points = [\<lparr>wid = 0, wx = 0, wy = 1000, roadRadius = Some 50,
        segmentIndex = Some 0, isRoadCenter = True, isIntermediate = False,
        isIntersection = False, isApproach = False, parentIntersection = None\<rparr>],
     connections = [[]], edgePoints = [0], zoneEntries = (\<lambda>_. None)(0 \<mapsto> [0]),
     needsRebuild = False\<rparr>"

lemma street_rebuilt:
  assumes "roadZones g = street_roads" and "worldWidth g = 10000" and "worldHeight g = 10000"
    and "residentialZones g = [street_homes]"
  shows "buildRoadNetwork g = g\<lparr>roadNetwork := street_network\<rparr>"
  by (simp add: buildRoadNetwork_def buildRoadNetworkWith_def rebuildSteps_def assms
      street_roads_def street_homes_def street_network_def extractRoadCenterline_def
      traceRoadSegment_def createWaypointsForSegment_def sortPointsForFlow_def
      addWaypoint_def noMetadata_def js_round_def connectNearbyWaypoints_def waypointPairs_def
      identifyIntersections_def identifyLoop.simps optimizeIntersectionConnections_def
      optimizeOne_def identifyEdgePoints_def EDGE_THRESHOLD_def findZoneEntryPoints_def
      zoneEntryPoints_def hypot_eval hypot_zero_right Let_def)

text \<open>
  The draws of \<open>Math.random\<close>: the fifth and the ninth choose the third circle of the
  zone, every other draw is 0 (first circle, angle 0, distance 0, first edge point).
\<close>

definition street_tape :: "nat \<Rightarrow> real" where
  "street_tape k = (if k = 4 \<or> k = 8 then 7 / 10 else 0)"

text \<open>The agent that enters at the edge waypoint \<open>(0, 1000)\<close> and settles at \<open>(x, 1000)\<close>.\<close>

definition street_agent :: "real \<Rightarrow> unit agent" where
  "street_agent x = \<lparr>agent_x = 0, agent_y = 1000, targetZoneIndex = 0,
     finalPosition = \<lparr>px = x, py = 1000\<rparr>, closestNodeToFinalPosition = 0,
     pathToNode = [\<lparr>px = 0, py = 1000\<rparr>], pathToNodeIndex = 0,
     agent_phase = traveling_to_node, speed = 2, agent_radius = 10, lotPolygon = None\<rparr>"

lemma street_plan:
  assumes "roadNetwork g = street_network"
  shows "planAgent g 0 street_homes \<lparr>px = x, py = 1000\<rparr> \<lparr>px = 0, py = 1000\<rparr> = street_agent x"
  by (simp add: planAgent_def assms street_network_def findClosestNetworkPoint_def
      findNetworkPathBetweenNodes_def waypointPt_def street_agent_def Let_def)

lemma street_entry:
  assumes "roadNetwork g = street_network" and "street_tape k = 0"
  shows "findRandomEdgeConnection g street_tape k = (Some \<lparr>px = 0, py = 1000\<rparr>, k + 1)"
  by (simp add: findRandomEdgeConnection_def assms street_network_def pick_def waypointPt_def)

lemma attempts: "MAX_PATHFINDING_ATTEMPTS = Suc 99"
  by (simp add: MAX_PATHFINDING_ATTEMPTS_def)

lemma street_first_position:
  "findFreePositionInZone street_homes ([] :: unit occupant list) street_tape 0
     = (Inr (Some \<lparr>px = 75, py = 1000\<rparr>), 3)"
  unfolding findFreePositionInZone_def attempts findFreeLoop.simps
  by (simp add: street_homes_def street_tape_def isFree_def Let_def)

lemma street_second_position:
  "findFreePositionInZone street_homes [Reserved \<lparr>px = 75, py = 1000\<rparr> :: unit occupant]
     street_tape 4 = (Inr (Some \<lparr>px = 185, py = 1000\<rparr>), 7)"
  unfolding findFreePositionInZone_def attempts findFreeLoop.simps
  by (simp add: street_homes_def street_tape_def isFree_def MIN_AGENT_DISTANCE_def
      hypot_eval Let_def)

lemma street_third_position:
  "findFreePositionInZone street_homes [Live (street_agent 75)] street_tape 8
     = (Inr (Some \<lparr>px = 185, py = 1000\<rparr>), 11)"
  unfolding findFreePositionInZone_def attempts findFreeLoop.simps
  by (simp add: street_homes_def street_tape_def street_agent_def isFree_def
      MIN_AGENT_DISTANCE_def hypot_eval Let_def)

text \<open>The states of the run.\<close>

definition street_built :: "unit game" where
  "street_built = street_world\<lparr>roadNetwork := street_network\<rparr>"

definition street_queued :: "unit game" where
  "street_queued = street_built\<lparr>zoneConnections := (\<lambda>_. None)(0 \<mapsto> True),
     agentSpawnQueue := [street_agent 75, street_agent 185]\<rparr>"

definition street_drained :: "unit game" where
  "street_drained = street_queued\<lparr>agents := [street_agent 75],
     agentSpawnQueue := [street_agent 185], lastSpawnTime := 5000\<rparr>"

definition street_edited :: "unit game" where
  "street_edited = street_drained\<lparr>
     buildMode := (buildMode street_drained)\<lparr>lastPaintX := Some 5000, lastPaintY := Some 5000\<rparr>,
     needsConnectionUpdate := True\<rparr>"

definition street_topped_up :: "unit game" where
  "street_topped_up = street_edited\<lparr>agents := [street_agent 75, street_agent 185]\<rparr>"

lemma street_step1: "buildRoadNetwork street_world = street_built"
  unfolding street_built_def
  by (rule street_rebuilt) (simp_all add: street_world_def world_example_def)

lemma street_step2:
  "updateAllConnections street_tape street_built 0 = (None, street_queued, 8)"
proof -
  let ?g1 = "street_built\<lparr>zoneConnections := (\<lambda>_. None)(0 \<mapsto> True)\<rparr>"
  have z: "residentialZones street_built = [street_homes]" "agents street_built = []"
    "zoneConnections street_built = (\<lambda>_. None)" "agentSpawnQueue street_built = []"
    by (simp_all add: street_built_def street_world_def world_example_def)
  have c: "checkZoneConnection street_built 0"
    by (rule street_connected)
       (simp_all add: street_built_def street_world_def world_example_def)
  have n: "roadNetwork ?g1 = street_network" by (simp add: street_built_def)
  have n': "roadNetwork (?g1\<lparr>agentSpawnQueue := [street_agent 75]\<rparr>) = street_network"
    by (simp add: street_built_def)
  have t: "street_tape 3 = 0" "street_tape 7 = 0" by (simp_all add: street_tape_def)
  have "spawnLoop 2 0 street_homes ([] :: unit occupant list) street_tape ?g1 0
          = (None, street_queued, 8)"
    unfolding numeral_2_eq_2
    by (simp add: street_first_position street_second_position
        street_entry [OF n t(1)] street_entry [OF n' t(2)]
        street_plan [OF n] street_plan [OF n'] z street_queued_def)
  then have "spawnAgentsForZone 0 street_tape ?g1 0 = (None, street_queued, 8)"
    by (simp add: spawnAgentsForZone_def agentsOfZone_def z street_capacity Let_def
        del: spawnLoop.simps)
  then show ?thesis
    by (simp add: updateAllConnections_def updateConnection_def z c Let_def)
qed

lemma street_step3: "processAgentSpawnQueue 5000 street_queued = street_drained"
  by (simp add: processAgentSpawnQueue_def spawnDelay_def street_queued_def street_drained_def
      street_built_def street_world_def world_example_def)

lemma street_step4:
  "buildRoadNetwork (eraseZone 5000 5000 True street_drained) = street_edited"
proof -
  have e: "eraseZone 5000 5000 True street_drained
      = street_edited\<lparr>roadNetwork := street_network\<lparr>needsRebuild := True\<rparr>\<rparr>"
    by (simp add: eraseZone_def tooCloseToLast_def street_edited_def street_drained_def
        street_queued_def street_built_def street_world_def world_example_def
        street_homes_def street_roads_def hypot_eval Let_def)
  have "buildRoadNetwork (street_edited\<lparr>roadNetwork := street_network\<lparr>needsRebuild := True\<rparr>\<rparr>)
      = (street_edited\<lparr>roadNetwork := street_network\<lparr>needsRebuild := True\<rparr>\<rparr>)
          \<lparr>roadNetwork := street_network\<rparr>"
    by (rule street_rebuilt)
       (simp_all add: street_edited_def street_drained_def street_queued_def street_built_def
          street_world_def world_example_def)
  also have "\<dots> = street_edited"
    by (simp add: street_edited_def street_drained_def street_queued_def street_built_def)
  finally show ?thesis by (simp only: e)
qed

lemma street_step5:
  "updateAllConnections street_tape street_edited 8 = (None, street_topped_up, 12)"
proof -
  have z: "residentialZones street_edited = [street_homes]"
    "agents street_edited = [street_agent 75]"
    "zoneConnections street_edited = (\<lambda>_. None)(0 \<mapsto> True)"
    by (simp_all add: street_edited_def street_drained_def street_queued_def street_built_def
        street_world_def world_example_def)
  let ?g1 = "street_edited\<lparr>zoneConnections := (\<lambda>_. None)(0 \<mapsto> True)\<rparr>"
  have g1: "?g1 = street_edited"
    by (simp add: street_edited_def street_drained_def street_queued_def)
  have c: "checkZoneConnection street_edited 0"
    by (rule street_connected)
       (simp_all add: street_edited_def street_drained_def street_queued_def street_built_def
          street_world_def world_example_def)
  have n: "roadNetwork street_edited = street_network"
    by (simp add: street_edited_def street_drained_def street_queued_def street_built_def)
  have t: "street_tape 11 = 0" by (simp add: street_tape_def)
  have "updateLoop (Suc 0) 0 street_homes [Live (street_agent 75)] street_tape street_edited 8
          = (None, street_topped_up, 12)"
    by (simp add: street_third_position street_entry [OF n t] street_plan [OF n] z
        street_topped_up_def Let_def)
  moreover have "targetZoneIndex (street_agent 75) = 0" by (simp add: street_agent_def)
  ultimately have "updateAgentsForZone 0 street_tape street_edited 8 = (None, street_topped_up, 12)"
    by (simp add: updateAgentsForZone_def agentsOfZone_def z street_capacity Let_def
        del: updateLoop.simps)
  then show ?thesis
    by (simp add: updateAllConnections_def updateConnection_def z c g1 Let_def)
qed

lemma street_step6:
  "agents (processAgentSpawnQueue 6000 street_topped_up)
     = [street_agent 75, street_agent 185, street_agent 185]"
  "residentialZones (processAgentSpawnQueue 6000 street_topped_up) = [street_homes]"
  by (simp_all add: processAgentSpawnQueue_def spawnDelay_def street_topped_up_def
      street_edited_def street_drained_def street_queued_def street_built_def
      street_world_def world_example_def)

text \<open>
  Claim C1 at the failing input. The zone becomes connected and two agents are queued;
  one is drained; an edit elsewhere triggers a second connectivity pass while the other
  agent is still queued; that pass counts one live agent, spawns a second one at once,
  onto the very position reserved for the queued agent; the queue is drained again.
  Three live agents now target the zone, whose capacity is 2.
\<close>

theorem queued_agents_exceed_capacity:
  "(let g1 = buildRoadNetwork street_world;
        (e2, g2, k2) = updateAllConnections street_tape g1 0;
        g3 = processAgentSpawnQueue 5000 g2;
        g4 = buildRoadNetwork (eraseZone 5000 5000 True g3);
        (e5, g5, k5) = updateAllConnections street_tape g4 k2;
        g6 = processAgentSpawnQueue 6000 g5
    in e2 = None \<and> e5 = None \<and>
       residentialZones g6 = [street_homes] \<and>
       calculateMaxAgents (residentialZones g6 ! 0) = 2 \<and>
       length (agentsOfZone g6 0) = 3 \<and>
       map finalPosition (agentsOfZone g6 0)
         = [\<lparr>px = 75, py = 1000\<rparr>, \<lparr>px = 185, py = 1000\<rparr>, \<lparr>px = 185, py = 1000\<rparr>])"
  by (simp add: street_step1 street_step2 street_step3 street_step4 street_step5 street_step6
      street_capacity agentsOfZone_def street_agent_def)

end
